theory Spec2Isabelle
  imports Complex_Main "HOL-Library.Log_Nat"
begin

section \<open>Exceptions and results\<close>

text \<open>
  The two engines of \<open>src/analysis\<close> are Python. A call either returns a value or raises;
  a raise is the left summand of the result. \<open>None\<close> as a return value is an ordinary
  value (\<open>Inr None\<close>), as in the source, where it is the "nothing to show" outcome.
\<close>

datatype exn = RuntimeError | ValueError | TypeError | IndexError

section \<open>Binary64 arithmetic for the sample partition\<close>

text \<open>
  \<open>int(n_samples * w_official)\<close> multiplies a Python int by a float. The int is
  converted to binary64, the product is rounded to binary64 (53 significant bits, ties to
  even), and \<open>int\<close> truncates toward zero. A binary64 value is kept as a pair
  \<open>(m, e)\<close> standing for \<open>m * 2^e\<close>. The exponent range of binary64 is not modelled:
  it is only left by counts of magnitude \<open>2^1024\<close> and beyond.
\<close>

type_synonym dbl = "int \<times> int"

definition rne53 :: "dbl \<Rightarrow> dbl" where
  "rne53 d =
     (let m = fst d; e = snd d; a = \<bar>m\<bar>; s = bitlen a - 53
      in if s \<le> 0 then (m, e)
         else let q = a div 2 ^ nat s;
                  r = a mod 2 ^ nat s;
                  h = 2 ^ (nat s - 1);
                  q' = (if h < r \<or> (r = h \<and> odd q) then q + 1 else q)
              in (sgn m * q', e + s))"

definition dbl_of_int :: "int \<Rightarrow> dbl" where
  "dbl_of_int n = rne53 (n, 0)"

definition dbl_mult :: "dbl \<Rightarrow> dbl \<Rightarrow> dbl" where
  "dbl_mult a b = rne53 (fst a * fst b, snd a + snd b)"

definition dbl_trunc :: "dbl \<Rightarrow> int" where
  "dbl_trunc d =
     (let m = fst d; e = snd d
      in if 0 \<le> e then m * 2 ^ nat e else sgn m * (\<bar>m\<bar> div 2 ^ nat (- e)))"

definition dbl_val :: "dbl \<Rightarrow> real" where
  "dbl_val d = of_int (fst d) * 2 powi (snd d)"

text \<open>The float literals \<open>0.3\<close>, \<open>0.7\<close> and \<open>0.5\<close> of the source, as binary64 values.\<close>

definition float_0_3 :: dbl where "float_0_3 = (5404319552844595, - 54)"
definition float_0_7 :: dbl where "float_0_7 = (6305039478318694, - 53)"
definition float_0_5 :: dbl where "float_0_5 = (1, - 1)"

section \<open>The random source\<close>

text \<open>
  \<open>np.random\<close> is a global generator. Its state is the sequence of standard normal
  variates and the sequence of raw integers it will hand out next; every draw consumes a
  prefix. \<open>np.random.normal(loc, scale, size)\<close> raises \<open>ValueError\<close> on a negative scale
  or a negative size.
\<close>

record random_state =
  normals :: "nat \<Rightarrow> real"
  integers :: "nat \<Rightarrow> nat"

definition random_normal ::
  "real \<Rightarrow> real \<Rightarrow> int \<Rightarrow> random_state \<Rightarrow> exn + (real list \<times> random_state)" where
  "random_normal loc scale sz st =
     (if scale < 0 \<or> sz < 0 then Inl ValueError
      else Inr (map (\<lambda>i. loc + scale * normals st i) [0 ..< nat sz],
                st\<lparr>normals := (\<lambda>i. normals st (i + nat sz))\<rparr>))"

text \<open>\<open>np.random.shuffle\<close>: Fisher-Yates from the last index down, in place.\<close>

fun fisher_yates :: "(nat \<Rightarrow> nat) \<Rightarrow> nat \<Rightarrow> 'a list \<Rightarrow> 'a list" where
  "fisher_yates r 0 xs = xs"
| "fisher_yates r (Suc i) xs =
     (let j = r (Suc i) mod (Suc (Suc i))
      in fisher_yates r i (xs[Suc i := xs ! j, j := xs ! Suc i]))"

definition random_shuffle :: "'a list \<Rightarrow> random_state \<Rightarrow> 'a list \<times> random_state" where
  "random_shuffle xs st =
     (fisher_yates (integers st) (length xs - 1) xs,
      st\<lparr>integers := (\<lambda>i. integers st (i + length xs))\<rparr>)"

section \<open>Sample statistics\<close>

text \<open>
  Sample values are real numbers. \<open>np.percentile\<close> (default method, linear
  interpolation) reads the sorted data at the virtual index \<open>(n - 1) * q / 100\<close>; on an
  empty array it raises \<open>IndexError\<close>.
\<close>

definition np_mean :: "real list \<Rightarrow> real" where
  "np_mean xs = sum_list xs / real (length xs)"

definition np_var :: "real list \<Rightarrow> real" where
  "np_var xs = np_mean (map (\<lambda>x. (x - np_mean xs)\<^sup>2) xs)"

definition np_std :: "real list \<Rightarrow> real" where
  "np_std xs = sqrt (np_var xs)"

definition quantile_linear :: "real list \<Rightarrow> real \<Rightarrow> real" where
  "quantile_linear s q =
     (let n = length s;
          v = (real n - 1) * (q / 100);
          i = nat \<lfloor>v\<rfloor>;
          j = min (i + 1) (n - 1);
          g = v - real i
      in s ! i + (s ! j - s ! i) * g)"

definition np_percentile :: "real list \<Rightarrow> real list \<Rightarrow> exn + real list" where
  "np_percentile a qs =
     (if a = [] then Inl IndexError else Inr (map (quantile_linear (sort a)) qs))"

section \<open>The posterior engine (\<open>BayesianTrueRange\<close>)\<close>

record estimate =
  est_mean :: real
  est_std :: real

record contested_metric =
  official :: estimate
  independent :: estimate
  prior_bias :: string

type_synonym engine = "string \<rightharpoonup> contested_metric"

definition add_contested_metric ::
  "engine \<Rightarrow> string \<Rightarrow> real \<Rightarrow> real \<Rightarrow> real \<Rightarrow> real \<Rightarrow> string \<Rightarrow> engine" where
  "add_contested_metric contested_metrics metric_name official_value official_std
       independent_value independent_std bias =
     contested_metrics(metric_name \<mapsto>
       \<lparr>official = \<lparr>est_mean = official_value, est_std = official_std\<rparr>,
        independent = \<lparr>est_mean = independent_value, est_std = independent_std\<rparr>,
        prior_bias = bias\<rparr>)"

record posterior =
  samples :: "real list"
  mean :: real
  median :: real
  std :: real
  ci_90 :: "real \<times> real"
  ci_50 :: "real \<times> real"
  p_official :: estimate
  p_independent :: estimate
  weights :: "dbl \<times> dbl"

text \<open>Lines 71-76: the mixture weights, from the bias label alone.\<close>

definition mixture_weights :: "string \<Rightarrow> dbl \<times> dbl" where
  "mixture_weights bias =
     (if bias = ''skeptical'' then (float_0_3, float_0_7)
      else if bias = ''official'' then (float_0_7, float_0_3)
      else (float_0_5, float_0_5))"

text \<open>Lines 79-80: the partition of the sample count.\<close>

definition n_official :: "int \<Rightarrow> dbl \<Rightarrow> int" where
  "n_official n_samples w_official = dbl_trunc (dbl_mult (dbl_of_int n_samples) w_official)"

definition n_independent :: "int \<Rightarrow> dbl \<Rightarrow> int" where
  "n_independent n_samples w_official = n_samples - n_official n_samples w_official"

text \<open>Lines 82-91: the two draws, concatenated and shuffled.\<close>

definition draw_samples ::
  "contested_metric \<Rightarrow> dbl \<Rightarrow> int \<Rightarrow> random_state \<Rightarrow> exn + (real list \<times> random_state)" where
  "draw_samples metric w_official n_samples st =
     (case random_normal (est_mean (official metric)) (est_std (official metric))
             (n_official n_samples w_official) st of
        Inl e \<Rightarrow> Inl e
      | Inr (official_samples, st1) \<Rightarrow>
          (case random_normal (est_mean (independent metric)) (est_std (independent metric))
                  (n_independent n_samples w_official) st1 of
             Inl e \<Rightarrow> Inl e
           | Inr (independent_samples, st2) \<Rightarrow>
               Inr (random_shuffle (official_samples @ independent_samples) st2)))"

definition compute_posterior ::
  "engine \<Rightarrow> string \<Rightarrow> int \<Rightarrow> random_state \<Rightarrow> exn + (posterior option \<times> random_state)" where
  "compute_posterior contested_metrics metric_name n_samples st =
     (case contested_metrics metric_name of
        None \<Rightarrow> Inr (None, st)
      | Some metric \<Rightarrow>
          (let w = mixture_weights (prior_bias metric)
           in case draw_samples metric (fst w) n_samples st of
                Inl e \<Rightarrow> Inl e
              | Inr (posterior_samples, st') \<Rightarrow>
                  (case np_percentile posterior_samples [5, 25, 50, 75, 95] of
                     Inl e \<Rightarrow> Inl e
                   | Inr percentiles \<Rightarrow>
                       Inr (Some \<lparr>samples = posterior_samples,
                                  mean = np_mean posterior_samples,
                                  median = percentiles ! 2,
                                  std = np_std posterior_samples,
                                  ci_90 = (percentiles ! 0, percentiles ! 4),
                                  ci_50 = (percentiles ! 1, percentiles ! 3),
                                  p_official = official metric,
                                  p_independent = independent metric,
                                  weights = w\<rparr>, st'))))"

text \<open>The fixed catalog of \<open>get_contested_metrics_analysis\<close>.\<close>

definition catalog :: engine where
  "catalog =
     add_contested_metric
      (add_contested_metric
        (add_contested_metric
          (add_contested_metric
            (add_contested_metric
              (add_contested_metric Map.empty
                 ''Daily Detention Population'' 35000 2000 52000 5000 ''skeptical'')
               ''Annual Removals'' 185000 10000 265000 25000 ''skeptical'')
             ''Deaths in/after Custody (Annual)'' 22 3 45 12 ''skeptical'')
           ''Sexual Assault Incidents (Annual)'' 120 20 850 150 ''skeptical'')
         ''Individuals in Solitary Confinement'' 2500 300 8000 1500 ''skeptical'')
       ''Family Separations (2017-2021)'' 3900 200 5500 400 ''skeptical''"

text \<open>
  The specification's partition, \<open>round(sampleCount * officialWeight)\<close>, for comparison
  with line 79: Python's \<open>round\<close> of a float goes to the nearest integer, ties to even.
\<close>

definition py_round :: "dbl \<Rightarrow> int" where
  "py_round d =
     (let m = fst d; e = snd d
      in if 0 \<le> e then m * 2 ^ nat e
         else let q = m div 2 ^ nat (- e);
                  r = m mod 2 ^ nat (- e);
                  h = 2 ^ (nat (- e) - 1)
              in if r < h then q else if h < r then q + 1 else if even q then q else q + 1)"

definition spec_n_official :: "int \<Rightarrow> dbl \<Rightarrow> int" where
  "spec_n_official n_samples w_official = py_round (dbl_mult (dbl_of_int n_samples) w_official)"

text \<open>A generator state that hands out zeros, for evaluating the engine on concrete input.\<close>

definition zero_state :: random_state where
  "zero_state = \<lparr>normals = (\<lambda>_. 0), integers = (\<lambda>_. 0)\<rparr>"

section \<open>The trend engine (\<open>DataImputationEngine\<close>)\<close>

text \<open>
  \<open>fit_trend\<close> and \<open>impute_missing_years\<close> are glue around three library routines:
  \<open>scipy.stats.linregress\<close>, the least-squares optimizer behind
  \<open>scipy.optimize.curve_fit\<close>, and \<open>scipy.stats.norm.ppf\<close>. The routines are parameters
  of the model: each either returns its result or raises. \<open>linregress\<close> returns
  \<open>(slope, intercept, r_value, p_value, std_err)\<close>; the optimizer for the exponential
  curve also receives \<open>years[0]\<close>, which \<open>exp_func\<close> closes over.
\<close>

record scipy =
  linregress :: "real list \<Rightarrow> real list \<Rightarrow> exn + (real \<times> real \<times> real \<times> real \<times> real)"
  minimize_exp ::
    "real \<Rightarrow> real list \<Rightarrow> real list \<Rightarrow> real \<times> real \<times> real \<Rightarrow> exn + (real \<times> real \<times> real)"
  minimize_logistic ::
    "real list \<Rightarrow> real list \<Rightarrow> real \<times> real \<times> real \<times> real
       \<Rightarrow> exn + (real \<times> real \<times> real \<times> real)"
  norm_ppf :: "real \<Rightarrow> real"

text \<open>
  \<open>curve_fit\<close> with its default method checks its input before it optimizes: with more
  parameters than data points (and more than one data point) it raises \<open>TypeError\<close>.
  \<open>exp_func\<close> has three parameters and \<open>logistic_func\<close> four.
\<close>

definition curve_fit_exp ::
  "scipy \<Rightarrow> real \<Rightarrow> real list \<Rightarrow> real list \<Rightarrow> real \<times> real \<times> real
     \<Rightarrow> exn + (real \<times> real \<times> real)" where
  "curve_fit_exp lib x0 xdata ydata p0 =
     (if length ydata \<noteq> 1 \<and> length ydata < 3 then Inl TypeError
      else minimize_exp lib x0 xdata ydata p0)"

definition curve_fit_logistic ::
  "scipy \<Rightarrow> real list \<Rightarrow> real list \<Rightarrow> real \<times> real \<times> real \<times> real
     \<Rightarrow> exn + (real \<times> real \<times> real \<times> real)" where
  "curve_fit_logistic lib xdata ydata p0 =
     (if length ydata \<noteq> 1 \<and> length ydata < 4 then Inl TypeError
      else minimize_logistic lib xdata ydata p0)"

definition exp_func :: "real \<Rightarrow> real \<times> real \<times> real \<Rightarrow> real \<Rightarrow> real" where
  "exp_func x0 popt x = (case popt of (a, b, c) \<Rightarrow> a * exp (b * (x - x0)) + c)"

definition logistic_func :: "real \<times> real \<times> real \<times> real \<Rightarrow> real \<Rightarrow> real" where
  "logistic_func popt x = (case popt of (L, k, x0, b) \<Rightarrow> L / (1 + exp (- k * (x - x0))) + b)"

definition np_median :: "real list \<Rightarrow> real" where
  "np_median xs =
     (let s = sort xs; n = length s
      in if even n then (s ! (n div 2 - 1) + s ! (n div 2)) / 2 else s ! (n div 2))"

definition list_max :: "real list \<Rightarrow> real" where
  "list_max xs = foldl max (hd xs) (tl xs)"

definition list_min :: "real list \<Rightarrow> real" where
  "list_min xs = foldl min (hd xs) (tl xs)"

text \<open>
  Lines 41-47. A missing value (\<open>None\<close> or NaN, both NaN after \<open>np.array(..., dtype=float)\<close>)
  is \<open>None\<close>. The mask is built from \<open>values\<close> and applied to both arrays, which removes the
  year together with its value; a mask of the wrong length raises \<open>IndexError\<close>.
\<close>

fun remove_nan :: "real list \<Rightarrow> real option list \<Rightarrow> (real \<times> real) list" where
  "remove_nan (y # years) (Some v # values) = (y, v) # remove_nan years values"
| "remove_nan (y # years) (None # values) = remove_nan years values"
| "remove_nan _ _ = []"

text \<open>
  The model dictionary. \<open>r_squared\<close> of the curve fits is \<open>1 - var(residuals) / var(values)\<close>,
  a float division: with \<open>var(values) = 0\<close> the result is \<open>-inf\<close> or NaN, written \<open>None\<close>
  here. Every comparison \<open>r_squared > x\<close> with a finite \<open>x\<close> is false for both.
\<close>

record trend_model =
  model_kind :: string
  slope :: "real option"
  intercept :: "real option"
  params :: "real list"
  r_squared :: "real option"
  std_err :: "real option"
  predict :: "real \<Rightarrow> real"
  residual_std :: real

definition residuals_of :: "(real \<Rightarrow> real) \<Rightarrow> real list \<Rightarrow> real list \<Rightarrow> real list" where
  "residuals_of pred years values = map (\<lambda>(v, y). v - pred y) (zip values years)"

definition curve_r_squared :: "real list \<Rightarrow> real list \<Rightarrow> real option" where
  "curve_r_squared residuals values =
     (if np_var values = 0 then None else Some (1 - np_var residuals / np_var values))"

function fit_trend ::
  "scipy \<Rightarrow> real list \<Rightarrow> real option list \<Rightarrow> string \<Rightarrow> exn + trend_model option" where
  "fit_trend lib years0 values0 model_type =
     (if length years0 \<noteq> length values0 then Inl IndexError
      else
        let years = map fst (remove_nan years0 values0);
            values = map snd (remove_nan years0 values0)
        in if length years < 3 then Inr None
           else if model_type = ''linear'' then
             (case linregress lib years values of
                Inl e \<Rightarrow> Inl e
              | Inr (slope', intercept', r_value, p_value, std_err') \<Rightarrow>
                  let pred = (\<lambda>year. slope' * year + intercept')
                  in Inr (Some \<lparr>model_kind = ''linear'',
                                slope = Some slope',
                                intercept = Some intercept',
                                params = [],
                                r_squared = Some (r_value\<^sup>2),
                                std_err = Some std_err',
                                predict = pred,
                                residual_std = np_std (residuals_of pred years values)\<rparr>))
           else if model_type = ''exponential'' then
             (case curve_fit_exp lib (hd years) years values (hd values, 0.05, 0) of
                Inr popt \<Rightarrow>
                  let pred = exp_func (hd years) popt;
                      residuals = residuals_of pred years values
                  in Inr (Some \<lparr>model_kind = ''exponential'',
                                slope = None,
                                intercept = None,
                                params = (case popt of (a, b, c) \<Rightarrow> [a, b, c]),
                                r_squared = curve_r_squared residuals values,
                                std_err = None,
                                predict = pred,
                                residual_std = np_std residuals\<rparr>)
              | Inl e \<Rightarrow>
                  if e = RuntimeError \<or> e = ValueError
                  then fit_trend lib years (map Some values) ''linear''
                  else Inl e)
           else if model_type = ''logistic'' then
             (case curve_fit_logistic lib years values
                     (list_max values * 1.5, 0.1, np_median years, list_min values) of
                Inr popt \<Rightarrow>
                  let pred = logistic_func popt;
                      residuals = residuals_of pred years values
                  in Inr (Some \<lparr>model_kind = ''logistic'',
                                slope = None,
                                intercept = None,
                                params = (case popt of (L, k, x0, b) \<Rightarrow> [L, k, x0, b]),
                                r_squared = curve_r_squared residuals values,
                                std_err = None,
                                predict = pred,
                                residual_std = np_std residuals\<rparr>)
              | Inl e \<Rightarrow>
                  if e = RuntimeError \<or> e = ValueError
                  then fit_trend lib years (map Some values) ''linear''
                  else Inl e)
           else Inr None)"
  by pat_completeness auto
termination
  by (relation "measure (\<lambda>(lib, years0, values0, model_type).
        if model_type = ''linear'' then 0 else 1)") auto

declare fit_trend.simps [simp del]

text \<open>Lines 129-142: the model used for the predictions.\<close>

definition r2_exceeds :: "real option \<Rightarrow> real \<Rightarrow> bool" where
  "r2_exceeds r best = (case r of None \<Rightarrow> False | Some x \<Rightarrow> best < x)"

fun auto_loop ::
  "scipy \<Rightarrow> real list \<Rightarrow> real option list \<Rightarrow> string list \<Rightarrow> trend_model option \<times> real
     \<Rightarrow> exn + (trend_model option \<times> real)" where
  "auto_loop lib known_years known_values [] best = Inr best"
| "auto_loop lib known_years known_values (mtype # rest) best =
     (case fit_trend lib known_years known_values mtype of
        Inl e \<Rightarrow> Inl e
      | Inr None \<Rightarrow> auto_loop lib known_years known_values rest best
      | Inr (Some model) \<Rightarrow>
          if r2_exceeds (r_squared model) (snd best)
          then auto_loop lib known_years known_values rest (Some model, the (r_squared model))
          else auto_loop lib known_years known_values rest best)"

definition select_model ::
  "scipy \<Rightarrow> real list \<Rightarrow> real option list \<Rightarrow> string \<Rightarrow> exn + trend_model option" where
  "select_model lib known_years known_values model_type =
     (if model_type = ''auto'' then
        (case auto_loop lib known_years known_values [''linear'', ''exponential''] (None, - 1) of
           Inl e \<Rightarrow> Inl e
         | Inr (best_model, best_r2) \<Rightarrow> Inr best_model)
      else fit_trend lib known_years known_values model_type)"

text \<open>Lines 147-176: the predictions.\<close>

record prediction =
  year :: int
  predicted :: real
  lower :: real
  upper :: real
  uncertainty_factor :: real
  is_imputed :: bool

record imputation =
  model :: trend_model
  predictions :: "prediction list"
  confidence_level :: real
  model_type :: string
  imp_r_squared :: "real option"

definition py_max :: "int list \<Rightarrow> exn + int" where
  "py_max xs = (if xs = [] then Inl ValueError else Inr (foldl max (hd xs) (tl xs)))"

definition factor_of :: "int \<Rightarrow> int \<Rightarrow> real" where
  "factor_of max_known yr = 1 + real_of_int (max 0 (yr - max_known)) * 0.15"

definition predict_year :: "trend_model \<Rightarrow> real \<Rightarrow> int list \<Rightarrow> int \<Rightarrow> exn + prediction" where
  "predict_year m z_score known_years yr =
     (let pred = predict m (real_of_int yr);
          margin = z_score * residual_std m
      in case py_max known_years of
           Inl e \<Rightarrow> Inl e
         | Inr max_known \<Rightarrow>
             let factor = factor_of max_known yr;
                 margin' = margin * factor
             in Inr \<lparr>year = yr,
                     predicted = pred,
                     lower = pred - margin',
                     upper = pred + margin',
                     uncertainty_factor = factor,
                     is_imputed = True\<rparr>)"

fun predict_all ::
  "trend_model \<Rightarrow> real \<Rightarrow> int list \<Rightarrow> int list \<Rightarrow> exn + prediction list" where
  "predict_all m z_score known_years [] = Inr []"
| "predict_all m z_score known_years (yr # rest) =
     (case predict_year m z_score known_years yr of
        Inl e \<Rightarrow> Inl e
      | Inr p \<Rightarrow>
          (case predict_all m z_score known_years rest of
             Inl e \<Rightarrow> Inl e
           | Inr ps \<Rightarrow> Inr (p # ps)))"

definition impute_missing_years ::
  "scipy \<Rightarrow> int list \<Rightarrow> real option list \<Rightarrow> int list \<Rightarrow> string \<Rightarrow> real
     \<Rightarrow> exn + imputation option" where
  "impute_missing_years lib known_years known_values missing_years mtype conf =
     (case select_model lib (map real_of_int known_years) known_values mtype of
        Inl e \<Rightarrow> Inl e
      | Inr None \<Rightarrow> Inr None
      | Inr (Some m) \<Rightarrow>
          (case predict_all m (norm_ppf lib ((1 + conf) / 2)) known_years missing_years of
             Inl e \<Rightarrow> Inl e
           | Inr ps \<Rightarrow>
               Inr (Some \<lparr>model = m,
                          predictions = ps,
                          confidence_level = conf,
                          model_type = model_kind m,
                          imp_r_squared = r_squared m\<rparr>)))"

section \<open>Library instances for concrete inputs\<close>

text \<open>
  Two instances of the library, for evaluating the engines on concrete data.
  \<open>example_linregress\<close> is the least-squares line with its correlation coefficient
  (p-value and standard error are not computed); like \<open>linregress\<close> it refuses data
  whose years are all equal. In \<open>example_library\<close> the optimizer never converges; in
  \<open>doubling_library\<close> the exponential fit converges to \<open>a = 1, b = ln 2, c = 0\<close>, the
  curve that doubles every year. The quantile function is a table with the one entry
  \<open>norm.ppf(0.975) = 1.959964\<close>.
\<close>

definition example_linregress ::
  "real list \<Rightarrow> real list \<Rightarrow> exn + (real \<times> real \<times> real \<times> real \<times> real)" where
  "example_linregress xs ys =
     (let mx = np_mean xs; my = np_mean ys;
          ssxm = np_mean (map (\<lambda>x. (x - mx)\<^sup>2) xs);
          ssym = np_mean (map (\<lambda>y. (y - my)\<^sup>2) ys);
          ssxym = np_mean (map (\<lambda>(x, y). (x - mx) * (y - my)) (zip xs ys))
      in if ssxm = 0 then Inl ValueError
         else Inr (ssxym / ssxm, my - ssxym / ssxm * mx,
                   (if ssym = 0 then 0 else ssxym / sqrt (ssxm * ssym)), 0, 0))"

definition example_library :: scipy where
  "example_library =
     \<lparr>linregress = example_linregress,
      minimize_exp = (\<lambda>x0 xdata ydata p0. Inl RuntimeError),
      minimize_logistic = (\<lambda>xdata ydata p0. Inl RuntimeError),
      norm_ppf = (\<lambda>p. if p = 0.975 then 1.959964 else 0)\<rparr>"

definition doubling_library :: scipy where
  "doubling_library =
     example_library\<lparr>minimize_exp := (\<lambda>x0 xdata ydata p0. Inr (1, ln 2, 0))\<rparr>"

section \<open>Rounding and truncation of binary64 values\<close>

lemma rne53_core:
  fixes a :: int
  assumes s: "0 < bitlen a - 53"
  defines "k \<equiv> nat (bitlen a - 53)"
  shows "(a div 2 ^ k + 1) * 2 ^ k * 2 ^ 52 \<le> a * (2 ^ 52 + 1)"
proof -
  have apos: "0 < a" using s bitlen_eq_zero_iff[of a] by (cases "0 < a") auto
  have "2 ^ nat (bitlen a - 1) \<le> a" using bitlen_bounds[OF apos] by simp
  moreover have "nat (bitlen a - 1) = k + 52" using s by (simp add: k_def nat_add_distrib) 
  ultimately have lo: "(2::int) ^ k * 2 ^ 52 \<le> a" by (simp add: power_add)
  have "a div 2 ^ k * 2 ^ k + a mod 2 ^ k = a" by (rule div_mult_mod_eq)
  moreover have "0 \<le> a mod 2 ^ k" by simp
  ultimately have "a div 2 ^ k * 2 ^ k \<le> a" by linarith
  hence "(a div 2 ^ k + 1) * 2 ^ k \<le> a + 2 ^ k" by (simp add: algebra_simps)
  hence "(a div 2 ^ k + 1) * 2 ^ k * 2 ^ 52 \<le> (a + 2 ^ k) * 2 ^ 52" by simp
  also have "\<dots> = a * 2 ^ 52 + 2 ^ k * 2 ^ 52" by (simp add: algebra_simps)
  also have "\<dots> \<le> a * 2 ^ 52 + a" using lo by simp
  finally show ?thesis by (simp add: algebra_simps)
qed

lemma rne53_shape:
  "\<exists>q'. 0 \<le> q' \<and> q' \<le> \<bar>fst d\<bar> div 2 ^ nat (bitlen \<bar>fst d\<bar> - 53) + 1 \<and>
        rne53 d = (sgn (fst d) * q', snd d + max 0 (bitlen \<bar>fst d\<bar> - 53))"
proof (cases "bitlen \<bar>fst d\<bar> - 53 \<le> 0")
  case True
  hence "rne53 d = (sgn (fst d) * \<bar>fst d\<bar>, snd d + max 0 (bitlen \<bar>fst d\<bar> - 53))"
    by (simp add: rne53_def Let_def mult_sgn_abs)
  moreover have "nat (bitlen \<bar>fst d\<bar> - 53) = 0" using True by simp
  ultimately show ?thesis by (intro exI[of _ "\<bar>fst d\<bar>"]) simp
next
  case False
  define k where "k = nat (bitlen \<bar>fst d\<bar> - 53)"
  define q where "q = \<bar>fst d\<bar> div 2 ^ k"
  have q0: "0 \<le> q" by (simp add: q_def pos_imp_zdiv_nonneg_iff)
  define q' where "q' = (if 2 ^ (k - 1) < \<bar>fst d\<bar> mod 2 ^ k \<or> (\<bar>fst d\<bar> mod 2 ^ k = 2 ^ (k - 1) \<and> odd q) then q + 1 else q)"
  have "rne53 d = (sgn (fst d) * q', snd d + (bitlen \<bar>fst d\<bar> - 53))"
    using False unfolding rne53_def Let_def q'_def q_def k_def by simp
  moreover have "0 \<le> q'" "q' \<le> q + 1" using q0 by (simp_all add: q'_def)
  ultimately show ?thesis using False unfolding q_def k_def
    by (intro exI[of _ q']) simp
qed

lemma rne53_sign_nonneg: "0 \<le> fst d \<Longrightarrow> 0 \<le> fst (rne53 d)"
  using rne53_shape[of d] by (auto simp: sgn_if)

lemma rne53_sign_nonpos: "fst d \<le> 0 \<Longrightarrow> fst (rne53 d) \<le> 0"
  using rne53_shape[of d] by (auto simp: sgn_if)

lemma rne53_upper:
  assumes "0 \<le> fst d"
  shows "dbl_val (rne53 d) \<le> dbl_val d * (1 + 1 / 2 ^ 52)"
proof (cases "bitlen \<bar>fst d\<bar> - 53 \<le> 0")
  case True
  have "0 \<le> dbl_val d" using assms by (simp add: dbl_val_def)
  hence "dbl_val d \<le> dbl_val d * (1 + 1 / 2 ^ 52)" by (simp add: mult_le_cancel_left1) 
  with True show ?thesis by (simp add: rne53_def Let_def)
next
  case False
  define a where "a = fst d"
  define k where "k = nat (bitlen a - 53)"
  have a: "\<bar>fst d\<bar> = a" "0 \<le> a" using assms by (simp_all add: a_def)
  have s: "0 < bitlen a - 53" using False a by simp
  have apos: "0 < a" using s bitlen_eq_zero_iff[of a] by (cases "0 < a") auto
  have sk: "max 0 (bitlen a - 53) = int k" using s by (simp add: k_def)
  have absa: "\<bar>a\<bar> = a" using a(2) by simp
  from rne53_shape[of d] obtain q' where
    q0: "0 \<le> q'" "q' \<le> \<bar>fst d\<bar> div 2 ^ nat (bitlen \<bar>fst d\<bar> - 53) + 1"
      "rne53 d = (sgn (fst d) * q', snd d + max 0 (bitlen \<bar>fst d\<bar> - 53))"
    by blast
  have q': "0 \<le> q'" "q' \<le> a div 2 ^ k + 1" "rne53 d = (sgn a * q', snd d + int k)"
    using q0 sk absa unfolding a_def[symmetric] by (simp_all add: k_def)
  have r: "rne53 d = (q', snd d + int k)" using q'(3) apos by simp
  have "q' * 2 ^ k * 2 ^ 52 \<le> (a div 2 ^ k + 1) * 2 ^ k * 2 ^ 52" using q'(2) by simp
  also have "\<dots> \<le> a * (2 ^ 52 + 1)" using rne53_core[OF s] by (simp add: k_def)
  finally have "real_of_int (q' * 2 ^ k * 2 ^ 52) \<le> real_of_int (a * (2 ^ 52 + 1))"
    by (rule of_int_le_iff[THEN iffD2])
  hence "real_of_int q' * 2 ^ k * 2 ^ 52 \<le> real_of_int a * (2 ^ 52 + 1)" by simp
  hence "real_of_int q' * 2 ^ k \<le> real_of_int a * (2 ^ 52 + 1) / 2 ^ 52"
    by (simp add: pos_le_divide_eq)
  hence "real_of_int q' * 2 ^ k \<le> real_of_int a * (1 + 1 / 2 ^ 52)"
    by (simp add: field_simps)
  hence "real_of_int q' * 2 ^ k * 2 powi (snd d) \<le> real_of_int a * (1 + 1 / 2 ^ 52) * 2 powi (snd d)"
    by (rule mult_right_mono) simp
  moreover have "dbl_val (rne53 d) = real_of_int q' * 2 ^ k * 2 powi (snd d)"
    by (simp add: r dbl_val_def power_int_add)
  moreover have "dbl_val d = real_of_int a * 2 powi (snd d)" by (simp add: dbl_val_def a_def)
  ultimately show ?thesis by (simp add: algebra_simps)
qed

lemma dbl_trunc_nonneg: "0 \<le> fst d \<Longrightarrow> 0 \<le> dbl_trunc d"
  by (auto simp: dbl_trunc_def Let_def sgn_if pos_imp_zdiv_nonneg_iff)

lemma dbl_trunc_nonpos: "fst d \<le> 0 \<Longrightarrow> dbl_trunc d \<le> 0"
  by (auto simp: dbl_trunc_def Let_def sgn_if pos_imp_zdiv_nonneg_iff mult_le_0_iff)

lemma dbl_trunc_le_val:
  assumes "0 \<le> fst d"
  shows "real_of_int (dbl_trunc d) \<le> dbl_val d"
proof (cases "0 \<le> snd d")
  case True
  then obtain k where "snd d = int k" using nonneg_int_cases by blast 
  then show ?thesis by (simp add: dbl_trunc_def dbl_val_def Let_def)
next
  case False
  then obtain k where k: "snd d = - int k" by (metis int_cases2 of_nat_0_le_iff)
  have "real_of_int (fst d div 2 ^ k) \<le> real_of_int (fst d) / 2 ^ k"
    by (metis of_int_numeral of_int_power real_of_int_div4) 
  then show ?thesis using assms False k
    by (auto simp: dbl_trunc_def dbl_val_def Let_def sgn_if power_int_minus field_simps)
qed

lemma dbl_val_mult_exact:
  "dbl_val (fst a * fst b, snd a + snd b) = dbl_val a * dbl_val b"
  by (simp add: dbl_val_def power_int_add)

lemma weight_val_le:
  assumes "w = float_0_3 \<or> w = float_0_5 \<or> w = float_0_7"
  shows "0 \<le> fst w" and "dbl_val w \<le> 7 / 10"
  using assms
  by (auto simp: float_0_3_def float_0_5_def float_0_7_def dbl_val_def power_int_minus field_simps)

lemma n_official_bounds:
  assumes n: "0 \<le> n" and w: "w = float_0_3 \<or> w = float_0_5 \<or> w = float_0_7"
  shows "0 \<le> n_official n w" and "n_official n w \<le> n"
proof -
  define a where "a = dbl_of_int n"
  define eps :: real where "eps = 1 + 1 / 2 ^ 52"
  have a0: "0 \<le> fst a" unfolding a_def dbl_of_int_def using n by (intro rne53_sign_nonneg) simp
  have "dbl_val a \<le> dbl_val (n, 0) * eps"
    unfolding a_def dbl_of_int_def eps_def using n by (intro rne53_upper) simp
  hence av: "dbl_val a \<le> real_of_int n * eps" by (simp add: dbl_val_def)
  have av0: "0 \<le> dbl_val a" using a0 by (simp add: dbl_val_def)
  have w0: "0 \<le> fst w" and wv: "dbl_val w \<le> 7 / 10" using weight_val_le[OF w] by auto
  have wv0: "0 \<le> dbl_val w" using w0 by (simp add: dbl_val_def)
  have p0: "0 \<le> fst (fst a * fst w, snd a + snd w)" using a0 w0 by simp
  have m0: "0 \<le> fst (dbl_mult a w)" unfolding dbl_mult_def by (rule rne53_sign_nonneg[OF p0])
  show "0 \<le> n_official n w" unfolding n_official_def a_def[symmetric]
    by (rule dbl_trunc_nonneg[OF m0])
  have "dbl_val (dbl_mult a w) \<le> dbl_val a * dbl_val w * eps"
    unfolding dbl_mult_def eps_def using rne53_upper[OF p0] by (simp add: dbl_val_mult_exact)
  also have "\<dots> \<le> (real_of_int n * eps) * (7 / 10) * eps"
    using av wv av0 wv0 by (intro mult_right_mono mult_mono) (auto simp: eps_def)
  also have "\<dots> = real_of_int n * (eps * eps * (7 / 10))" by simp
  also have "\<dots> \<le> real_of_int n * 1"
    using n by (intro mult_left_mono) (auto simp: eps_def field_simps)
  finally have "dbl_val (dbl_mult a w) \<le> real_of_int n" by simp
  moreover have "real_of_int (dbl_trunc (dbl_mult a w)) \<le> dbl_val (dbl_mult a w)"
    by (rule dbl_trunc_le_val[OF m0])
  ultimately have "real_of_int (dbl_trunc (dbl_mult a w)) \<le> real_of_int n" by linarith
  thus "n_official n w \<le> n" unfolding n_official_def a_def[symmetric] by simp
qed

lemma n_official_nonpos:
  assumes n: "n \<le> 0" and w: "0 \<le> fst w"
  shows "n_official n w \<le> 0"
proof -
  have "fst (dbl_of_int n) \<le> 0" unfolding dbl_of_int_def using n by (intro rne53_sign_nonpos) simp
  hence "fst (dbl_of_int n) * fst w \<le> 0" using w by (simp add: mult_le_0_iff)
  hence "fst (dbl_mult (dbl_of_int n) w) \<le> 0" unfolding dbl_mult_def by (intro rne53_sign_nonpos) simp
  thus ?thesis unfolding n_official_def by (rule dbl_trunc_nonpos)
qed

lemma mixture_weights_cases:
  "fst (mixture_weights b) = float_0_3 \<or> fst (mixture_weights b) = float_0_5 \<or> fst (mixture_weights b) = float_0_7"
  by (simp add: mixture_weights_def)

lemma fisher_yates_length [simp]: "length (fisher_yates r i xs) = length xs"
  by (induction r i xs rule: fisher_yates.induct) (simp_all add: Let_def)

section \<open>Percentiles and draws\<close>

lemma quantile_index:
  assumes "s \<noteq> []" "0 \<le> q" "q \<le> 100"
  defines "v \<equiv> (real (length s) - 1) * (q / 100)"
  shows "0 \<le> v" and "nat \<lfloor>v\<rfloor> < length s" and "real (nat \<lfloor>v\<rfloor>) \<le> v" and "v < real (nat \<lfloor>v\<rfloor>) + 1"
proof -
  have n: "1 \<le> real (length s)" using assms(1) by (cases s) auto
  show v0: "0 \<le> v" unfolding v_def using n assms by simp
  have "v \<le> (real (length s) - 1) * 1" unfolding v_def
    using n assms by (intro mult_left_mono) auto
  hence vle: "v \<le> real (length s) - 1" by simp
  have fl: "real_of_int \<lfloor>v\<rfloor> \<le> v" "v < real_of_int \<lfloor>v\<rfloor> + 1" by linarith+
  have f0: "0 \<le> \<lfloor>v\<rfloor>" using v0 by simp
  hence eq: "real (nat \<lfloor>v\<rfloor>) = real_of_int \<lfloor>v\<rfloor>" by simp
  show "real (nat \<lfloor>v\<rfloor>) \<le> v" "v < real (nat \<lfloor>v\<rfloor>) + 1" using fl eq by linarith+
  have "real (nat \<lfloor>v\<rfloor>) < real (length s)" using fl eq vle by linarith
  thus "nat \<lfloor>v\<rfloor> < length s" by simp
qed

lemma quantile_linear_between:
  assumes "sorted s" "s \<noteq> []" "0 \<le> q" "q \<le> 100"
  defines "i \<equiv> nat \<lfloor>(real (length s) - 1) * (q / 100)\<rfloor>"
  shows "s ! i \<le> quantile_linear s q" and "quantile_linear s q \<le> s ! min (i + 1) (length s - 1)"
proof -
  define v where "v = (real (length s) - 1) * (q / 100)"
  define j where "j = min (i + 1) (length s - 1)"
  define g where "g = v - real i"
  have idx: "i < length s" "real i \<le> v" "v < real i + 1"
    using quantile_index[OF assms(2-4)] unfolding i_def v_def by auto
  have j: "j < length s" "i \<le> j" using idx(1) unfolding j_def by auto
  have d: "0 \<le> s ! j - s ! i" using sorted_nth_mono[OF assms(1) j(2) j(1)] by simp
  have g: "0 \<le> g" "g \<le> 1" using idx unfolding g_def by auto
  have Q: "quantile_linear s q = s ! i + (s ! j - s ! i) * g"
    unfolding quantile_linear_def Let_def i_def j_def g_def v_def by simp
  show "s ! i \<le> quantile_linear s q" unfolding Q using d g by simp
  have "(s ! j - s ! i) * g \<le> (s ! j - s ! i) * 1" using d g by (intro mult_left_mono) auto
  thus "quantile_linear s q \<le> s ! min (i + 1) (length s - 1)" unfolding Q j_def[symmetric] by simp
qed

lemma quantile_linear_mono:
  assumes s: "sorted s" "s \<noteq> []" and q: "0 \<le> q" "q \<le> q'" "q' \<le> 100"
  shows "quantile_linear s q \<le> quantile_linear s q'"
proof -
  define v where "v = (real (length s) - 1) * (q / 100)"
  define v' where "v' = (real (length s) - 1) * (q' / 100)"
  define i where "i = nat \<lfloor>v\<rfloor>"
  define i' where "i' = nat \<lfloor>v'\<rfloor>"
  have n: "1 \<le> real (length s)" using s(2) by (cases s) auto
  have vv: "v \<le> v'" unfolding v_def v'_def using n q by (intro mult_left_mono) auto
  have q0: "0 \<le> q'" "q \<le> 100" using q by auto
  have ii: "i \<le> i'" unfolding i_def i'_def using vv by (intro nat_mono floor_mono)
  have idx': "i' < length s" using quantile_index(2)[OF s(2) q0(1) q(3)] unfolding i'_def v'_def .
  show ?thesis
  proof (cases "i = i'")
    case True
    define j where "j = min (i + 1) (length s - 1)"
    have j: "j < length s" "i \<le> j" using idx' True unfolding j_def by auto
    have d: "0 \<le> s ! j - s ! i" using sorted_nth_mono[OF s(1) j(2) j(1)] by simp
    have Q: "quantile_linear s q = s ! i + (s ! j - s ! i) * (v - real i)"
      unfolding quantile_linear_def Let_def i_def j_def v_def by simp
    have Q': "quantile_linear s q' = s ! i + (s ! j - s ! i) * (v' - real i)"
      unfolding quantile_linear_def Let_def True j_def i'_def v'_def by simp
    have "(s ! j - s ! i) * (v - real i) \<le> (s ! j - s ! i) * (v' - real i)"
      using d vv by (intro mult_left_mono) auto
    thus ?thesis unfolding Q Q' by simp
  next
    case False
    hence lt: "i + 1 \<le> i'" using ii by simp
    have "quantile_linear s q \<le> s ! min (i + 1) (length s - 1)"
      using quantile_linear_between(2)[OF s q(1) q0(2)] unfolding i_def v_def .
    also have "\<dots> \<le> s ! i'"
      using lt idx' by (intro sorted_nth_mono[OF s(1)]) auto
    also have "\<dots> \<le> quantile_linear s q'"
      using quantile_linear_between(1)[OF s q0(1) q(3)] unfolding i'_def v'_def .
    finally show ?thesis .
  qed
qed

lemma random_normal_ok:
  "0 \<le> scale \<Longrightarrow> 0 \<le> sz \<Longrightarrow>
   \<exists>xs st'. random_normal loc scale sz st = Inr (xs, st') \<and> length xs = nat sz"
  by (simp add: random_normal_def)

lemma random_normal_negative: "sz < 0 \<Longrightarrow> random_normal loc scale sz st = Inl ValueError"
  by (simp add: random_normal_def)

lemma random_normal_Inl: "random_normal loc scale sz st = Inl e \<Longrightarrow> e = ValueError"
  by (simp add: random_normal_def split: if_splits)

lemma draw_samples_ok:
  assumes "0 \<le> n" "0 \<le> est_std (official m)" "0 \<le> est_std (independent m)"
    and w: "w = float_0_3 \<or> w = float_0_5 \<or> w = float_0_7"
  shows "\<exists>xs st'. draw_samples m w n st = Inr (xs, st') \<and> length xs = nat n"
proof -
  have b: "0 \<le> n_official n w" "n_official n w \<le> n" using n_official_bounds[OF assms(1) w] by auto
  hence bi: "0 \<le> n_independent n w" by (simp add: n_independent_def)
  obtain os st1 where o: "random_normal (est_mean (official m)) (est_std (official m)) (n_official n w) st = Inr (os, st1)"
    "length os = nat (n_official n w)"
    using random_normal_ok[OF assms(2) b(1)] by blast
  obtain ys st2 where i: "random_normal (est_mean (independent m)) (est_std (independent m)) (n_independent n w) st1 = Inr (ys, st2)"
    "length ys = nat (n_independent n w)"
    using random_normal_ok[OF assms(3) bi] by blast
  have "length os + length ys = nat n" using o(2) i(2) b bi by (simp add: n_independent_def)
  thus ?thesis unfolding draw_samples_def by (simp add: o(1) i(1) random_shuffle_def)
qed

lemma draw_samples_negative:
  assumes "n < 0" and w: "0 \<le> fst w"
  shows "draw_samples m w n st = Inl ValueError"
proof (cases "n_official n w < 0")
  case True
  thus ?thesis unfolding draw_samples_def by (simp add: random_normal_negative)
next
  case False
  moreover have "n_official n w \<le> 0" using n_official_nonpos[OF _ w, of n] assms(1) by simp
  ultimately have z: "n_official n w = 0" by simp
  hence neg: "n_independent n w < 0" using assms(1) by (simp add: n_independent_def)
  show ?thesis
  proof (cases "random_normal (est_mean (official m)) (est_std (official m)) (n_official n w) st")
    case (Inl e)
    thus ?thesis unfolding draw_samples_def using random_normal_Inl[OF Inl] by simp
  next
    case (Inr r)
    thus ?thesis unfolding draw_samples_def
      by (cases r) (simp add: random_normal_negative[OF neg])
  qed
qed

lemma dbl_trunc_floor:
  assumes "0 \<le> fst d"
  shows "dbl_val d < real_of_int (dbl_trunc d) + 1"
proof (cases "0 \<le> snd d")
  case True
  then obtain k where "snd d = int k" using nonneg_int_cases by blast
  then show ?thesis by (simp add: dbl_trunc_def dbl_val_def Let_def)
next
  case False
  then obtain k where k: "snd d = - int k" by (metis int_cases2 of_nat_0_le_iff)
  have "real_of_int (fst d div 2 ^ k) = real_of_int \<lfloor>real_of_int (fst d) / real_of_int (2 ^ k)\<rfloor>"
    by (simp only: floor_divide_of_int_eq)
  moreover have "real_of_int (fst d) / real_of_int (2 ^ k)
      < real_of_int \<lfloor>real_of_int (fst d) / real_of_int (2 ^ k)\<rfloor> + 1"
    by linarith
  ultimately have "real_of_int (fst d) / 2 ^ k < real_of_int (fst d div 2 ^ k) + 1"
    by simp
  then show ?thesis using assms False k
    by (auto simp: dbl_trunc_def dbl_val_def Let_def sgn_if power_int_minus field_simps)
qed

lemma mixture_weights_nonneg: "0 \<le> fst (fst (mixture_weights b))"
  by (simp add: mixture_weights_def float_0_3_def float_0_5_def float_0_7_def)

lemma sorted_percentiles:
  assumes "np_percentile a [5, 25, 50, 75, 95] = Inr pc"
  shows "pc ! 0 \<le> pc ! 1 \<and> pc ! 1 \<le> pc ! 3 \<and> pc ! 3 \<le> pc ! 4"
proof -
  have ne: "a \<noteq> []" using assms by (auto simp: np_percentile_def split: if_splits)
  have "length (sort a) = length a" by simp
  hence s: "sorted (sort a)" "sort a \<noteq> []" using ne by (simp, fastforce)
  have pc: "pc = map (quantile_linear (sort a)) [5, 25, 50, 75, 95]"
    using assms ne by (simp add: np_percentile_def)
  have "quantile_linear (sort a) 5 \<le> quantile_linear (sort a) 25"
    by (rule quantile_linear_mono[OF s]) simp_all
  moreover have "quantile_linear (sort a) 25 \<le> quantile_linear (sort a) 75"
    by (rule quantile_linear_mono[OF s]) simp_all
  moreover have "quantile_linear (sort a) 75 \<le> quantile_linear (sort a) 95"
    by (rule quantile_linear_mono[OF s]) simp_all
  ultimately show ?thesis unfolding pc by simp
qed

lemma compute_posterior_Some:
  assumes "compute_posterior cm name n st = Inr (Some p, st')"
  obtains metric pc where "cm name = Some metric"
    "draw_samples metric (fst (mixture_weights (prior_bias metric))) n st = Inr (samples p, st')"
    "np_percentile (samples p) [5, 25, 50, 75, 95] = Inr pc"
    "ci_90 p = (pc ! 0, pc ! 4)" "ci_50 p = (pc ! 1, pc ! 3)"
    "weights p = mixture_weights (prior_bias metric)"
  using assms unfolding compute_posterior_def Let_def
  by (auto split: option.splits sum.splits prod.splits)

lemma compute_posterior_ok:
  assumes m: "cm name = Some metric"
    and sd: "0 \<le> est_std (official metric)" "0 \<le> est_std (independent metric)"
    and n: "1 \<le> n"
  shows "\<exists>p st'. compute_posterior cm name n st = Inr (Some p, st') \<and> int (length (samples p)) = n"
proof -
  have n0: "0 \<le> n" using n by simp
  obtain xs st' where d: "draw_samples metric (fst (mixture_weights (prior_bias metric))) n st = Inr (xs, st')"
    "length xs = nat n"
    using draw_samples_ok[OF n0 sd mixture_weights_cases] by blast
  have "xs \<noteq> []" using d(2) n by auto
  thus ?thesis using d n0 unfolding compute_posterior_def Let_def
    by (simp add: m np_percentile_def)
qed

lemma n_official_2: "n_official 2 float_0_3 = 0" by code_simp
lemma spec_n_official_2: "spec_n_official 2 float_0_3 = 1" by code_simp
lemma n_official_1: "n_official 1 float_0_3 = 0" by code_simp

lemma catalog_removals:
  "catalog ''Annual Removals'' =
     Some \<lparr>official = \<lparr>est_mean = 185000, est_std = 10000\<rparr>,
           independent = \<lparr>est_mean = 265000, est_std = 25000\<rparr>,
           prior_bias = ''skeptical''\<rparr>"
  by (simp add: catalog_def add_contested_metric_def)

lemma float_literals:
  "\<bar>dbl_val float_0_3 - 3 / 10\<bar> \<le> 1 / 2 ^ 55 \<and> 2 ^ 52 \<le> fst float_0_3 \<and> fst float_0_3 < 2 ^ 53"
  "\<bar>dbl_val float_0_7 - 7 / 10\<bar> \<le> 1 / 2 ^ 54 \<and> 2 ^ 52 \<le> fst float_0_7 \<and> fst float_0_7 < 2 ^ 53"
  "dbl_val float_0_5 = 1 / 2"
  by (simp_all add: float_0_3_def float_0_7_def float_0_5_def dbl_val_def power_int_minus field_simps)

lemma dbl_trunc_negate: "dbl_trunc (- fst d, snd d) = - dbl_trunc d"
  by (simp add: dbl_trunc_def Let_def sgn_if)

lemma dbl_val_negate: "dbl_val (- fst d, snd d) = - dbl_val d"
  by (simp add: dbl_val_def)

lemma dbl_trunc_ceiling:
  assumes "fst d \<le> 0"
  shows "dbl_val d \<le> real_of_int (dbl_trunc d)" and "real_of_int (dbl_trunc d) - 1 < dbl_val d"
proof -
  have p: "0 \<le> fst (- fst d, snd d)" using assms by simp
  show "dbl_val d \<le> real_of_int (dbl_trunc d)"
    using dbl_trunc_le_val[OF p] by (simp add: dbl_trunc_negate dbl_val_negate)
  show "real_of_int (dbl_trunc d) - 1 < dbl_val d"
    using dbl_trunc_floor[OF p] by (simp add: dbl_trunc_negate dbl_val_negate)
qed

section \<open>Claims about the posterior engine\<close>

text \<open>
  Claim C3. The mixture weights of \<open>compute_posterior\<close> come from the bias label alone,
  whatever the numbers of the metric: \<open>skeptical\<close> gives \<open>(0.3, 0.7)\<close>, \<open>official\<close>
  gives \<open>(0.7, 0.3)\<close>, \<open>neutral\<close> gives \<open>(0.5, 0.5)\<close>; and the pair returned in the
  posterior is the pair the samples were drawn with.
\<close>
theorem weights_from_bias_alone:
  assumes "contested_metrics metric_name = Some metric"
    and "compute_posterior contested_metrics metric_name n_samples st = Inr (Some p, st')"
  shows "weights p = mixture_weights (prior_bias metric)
       \<and> draw_samples metric (fst (weights p)) n_samples st = Inr (samples p, st')
       \<and> (prior_bias metric = ''skeptical'' \<longrightarrow> weights p = (float_0_3, float_0_7))
       \<and> (prior_bias metric = ''official'' \<longrightarrow> weights p = (float_0_7, float_0_3))
       \<and> (prior_bias metric = ''neutral'' \<longrightarrow> weights p = (float_0_5, float_0_5))"
proof -
  from assms(2) obtain metric' pc where m: "contested_metrics metric_name = Some metric'"
    "draw_samples metric' (fst (mixture_weights (prior_bias metric'))) n_samples st = Inr (samples p, st')"
    "weights p = mixture_weights (prior_bias metric')"
    by (rule compute_posterior_Some)
  have "metric' = metric" using m(1) assms(1) by simp
  thus ?thesis using m by (simp add: mixture_weights_def)
qed

theorem weights_from_bias_alone_witness:
  "\<exists>p st'. compute_posterior catalog ''Annual Removals'' 2 zero_state = Inr (Some p, st')
      \<and> weights p = (float_0_3, float_0_7)"
proof -
  obtain p st' where c: "compute_posterior catalog ''Annual Removals'' 2 zero_state = Inr (Some p, st')"
    using compute_posterior_ok[where cm=catalog and name="''Annual Removals''" and n=2 and st=zero_state, OF catalog_removals] by auto
  show ?thesis using weights_from_bias_alone[where contested_metrics=catalog and metric_name="''Annual Removals''", OF catalog_removals c] c by auto
qed

text \<open>
  Claim C4 says the official partition is \<open>round(sampleCount * officialWeight)\<close>. Line 79
  truncates instead: with two samples and weight \<open>0.3\<close> the product is \<open>0.6\<close>, which
  \<open>int\<close> takes to \<open>0\<close> and \<open>round\<close> to \<open>1\<close>.
\<close>
theorem partition_rounds_counterexample:
  "n_official 2 float_0_3 = 0 \<and> spec_n_official 2 float_0_3 = 1"
  by (simp add: n_official_2 spec_n_official_2)

text \<open>
  Claim C4, amended. For every sample count and every bias label the independent partition
  is the sample count minus the official one, so the two always sum to the sample count
  exactly; the official partition is the binary64 product \<open>sampleCount * officialWeight\<close>
  truncated toward zero, not rounded: its floor for a non-negative sample count (both
  partitions are then non-negative), its ceiling for a negative one.
\<close>

theorem partition_truncates_and_sums:
  assumes "w = fst (mixture_weights bias)"
  shows "n_official n_samples w + n_independent n_samples w = n_samples
       \<and> (0 \<le> n_samples \<longrightarrow>
            0 \<le> n_official n_samples w \<and> 0 \<le> n_independent n_samples w
          \<and> real_of_int (n_official n_samples w) \<le> dbl_val (dbl_mult (dbl_of_int n_samples) w)
          \<and> dbl_val (dbl_mult (dbl_of_int n_samples) w) < real_of_int (n_official n_samples w) + 1)
       \<and> (n_samples \<le> 0 \<longrightarrow>
            n_official n_samples w \<le> 0
          \<and> dbl_val (dbl_mult (dbl_of_int n_samples) w) \<le> real_of_int (n_official n_samples w)
          \<and> real_of_int (n_official n_samples w) - 1 < dbl_val (dbl_mult (dbl_of_int n_samples) w))"
proof -
  have w: "w = float_0_3 \<or> w = float_0_5 \<or> w = float_0_7"
    using mixture_weights_cases[of bias] assms by simp
  have w0: "0 \<le> fst w" using weight_val_le(1)[OF w] .
  have pos: "0 \<le> n_official n_samples w \<and> 0 \<le> n_independent n_samples w
          \<and> real_of_int (n_official n_samples w) \<le> dbl_val (dbl_mult (dbl_of_int n_samples) w)
          \<and> dbl_val (dbl_mult (dbl_of_int n_samples) w) < real_of_int (n_official n_samples w) + 1"
    if n: "0 \<le> n_samples"
  proof -
    have "0 \<le> fst (dbl_of_int n_samples)"
      unfolding dbl_of_int_def using n by (intro rne53_sign_nonneg) simp
    hence "0 \<le> fst (fst (dbl_of_int n_samples) * fst w, snd (dbl_of_int n_samples) + snd w)"
      using w0 by simp
    hence m0: "0 \<le> fst (dbl_mult (dbl_of_int n_samples) w)"
      unfolding dbl_mult_def by (rule rne53_sign_nonneg)
    show ?thesis
      using n_official_bounds[OF n w] dbl_trunc_le_val[OF m0] dbl_trunc_floor[OF m0]
      by (simp add: n_independent_def n_official_def)
  qed
  have neg: "n_official n_samples w \<le> 0
          \<and> dbl_val (dbl_mult (dbl_of_int n_samples) w) \<le> real_of_int (n_official n_samples w)
          \<and> real_of_int (n_official n_samples w) - 1 < dbl_val (dbl_mult (dbl_of_int n_samples) w)"
    if n: "n_samples \<le> 0"
  proof -
    have "fst (dbl_of_int n_samples) \<le> 0"
      unfolding dbl_of_int_def using n by (intro rne53_sign_nonpos) simp
    hence "fst (fst (dbl_of_int n_samples) * fst w, snd (dbl_of_int n_samples) + snd w) \<le> 0"
      using w0 by (simp add: mult_le_0_iff)
    hence m0: "fst (dbl_mult (dbl_of_int n_samples) w) \<le> 0"
      unfolding dbl_mult_def by (rule rne53_sign_nonpos)
    show ?thesis
      using n_official_nonpos[OF n w0] dbl_trunc_ceiling[OF m0]
      by (simp add: n_official_def)
  qed
  show ?thesis using pos neg by (simp add: n_independent_def)
qed

theorem partition_truncates_and_sums_witness:
  "float_0_7 = fst (mixture_weights ''official'') \<and> (0::int) \<le> 90
     \<and> n_official 90 float_0_7 + n_independent 90 float_0_7 = 90
     \<and> 0 \<le> n_official 90 float_0_7 \<and> 0 \<le> n_independent 90 float_0_7"
proof -
  have h: "float_0_7 = fst (mixture_weights ''official'')" by (simp add: mixture_weights_def)
  have n: "(0::int) \<le> 90" by simp
  show ?thesis using h n partition_truncates_and_sums[OF h, of 90] by simp
qed

text \<open>
  Claim C5. For every metric the engine holds (its two standard deviations not negative, as
  the sampler requires) and every sample count of at least 2, \<open>compute_posterior\<close> returns
  a posterior with exactly that many samples, whatever the bias label.
\<close>

theorem posterior_has_sample_count_samples:
  assumes "contested_metrics metric_name = Some metric"
    and "0 \<le> est_std (official metric)" and "0 \<le> est_std (independent metric)"
    and "2 \<le> n_samples"
  shows "\<exists>p st'. compute_posterior contested_metrics metric_name n_samples st = Inr (Some p, st')
           \<and> int (length (samples p)) = n_samples"
proof -
  have "1 \<le> n_samples" using assms(4) by simp
  thus ?thesis
    using compute_posterior_ok[where cm=contested_metrics and name=metric_name, OF assms(1-3)]
    by blast
qed

theorem posterior_has_sample_count_samples_witness:
  "add_contested_metric Map.empty ''Daily Detention Population'' 35000 2000 52000 5000 ''official''
       ''Daily Detention Population''
     = Some \<lparr>official = \<lparr>est_mean = 35000, est_std = 2000\<rparr>,
             independent = \<lparr>est_mean = 52000, est_std = 5000\<rparr>,
             prior_bias = ''official''\<rparr>
   \<and> (0 :: real) \<le> 2000 \<and> (0 :: real) \<le> 5000 \<and> (2 :: int) \<le> 90
   \<and> (\<exists>p st'. compute_posterior
          (add_contested_metric Map.empty ''Daily Detention Population'' 35000 2000 52000 5000
             ''official'')
          ''Daily Detention Population'' 90 zero_state = Inr (Some p, st')
        \<and> int (length (samples p)) = 90)"
proof -
  let ?E = "add_contested_metric Map.empty ''Daily Detention Population'' 35000 2000 52000 5000
              ''official''"
  let ?m = "\<lparr>official = \<lparr>est_mean = 35000, est_std = 2000\<rparr>,
             independent = \<lparr>est_mean = 52000, est_std = 5000\<rparr>,
             prior_bias = ''official''\<rparr>"
  have m: "?E ''Daily Detention Population'' = Some ?m"
    by (simp add: add_contested_metric_def)
  have o: "0 \<le> est_std (official ?m)" and i: "0 \<le> est_std (independent ?m)" by simp_all
  have n: "(2 :: int) \<le> 90" by simp
  show ?thesis
    using m n posterior_has_sample_count_samples[where contested_metrics="?E"
        and metric_name="''Daily Detention Population''" and st=zero_state, OF m o i n]
    by simp
qed

text \<open>
  Claim C8. In every posterior that \<open>compute_posterior\<close> returns, the 50% credible
  interval lies within the 90% one: \<open>ci_90.low \<le> ci_50.low \<le> ci_50.high \<le> ci_90.high\<close>.
\<close>
theorem credible_intervals_nested:
  assumes "compute_posterior contested_metrics metric_name n_samples st = Inr (Some p, st')"
  shows "fst (ci_90 p) \<le> fst (ci_50 p) \<and> fst (ci_50 p) \<le> snd (ci_50 p)
       \<and> snd (ci_50 p) \<le> snd (ci_90 p)"
proof -
  from assms obtain pc where pc: "np_percentile (samples p) [5, 25, 50, 75, 95] = Inr pc"
    "ci_90 p = (pc ! 0, pc ! 4)" "ci_50 p = (pc ! 1, pc ! 3)"
    by (rule compute_posterior_Some)
  show ?thesis using sorted_percentiles[OF pc(1)] pc(2,3) by simp
qed

theorem credible_intervals_nested_witness:
  "\<exists>p st'. compute_posterior catalog ''Annual Removals'' 10000 zero_state = Inr (Some p, st')
     \<and> fst (ci_90 p) \<le> fst (ci_50 p) \<and> fst (ci_50 p) \<le> snd (ci_50 p)
     \<and> snd (ci_50 p) \<le> snd (ci_90 p)"
proof -
  obtain p st' where c: "compute_posterior catalog ''Annual Removals'' 10000 zero_state = Inr (Some p, st')"
    using compute_posterior_ok[where cm=catalog and name="''Annual Removals''" and n=10000 and st=zero_state, OF catalog_removals] by auto
  show ?thesis using credible_intervals_nested[OF c] c by blast
qed

text \<open>
  Claim C9 says a sample count below 2 is rejected or clamped. There is no such check: with
  a sample count of 1 the engine returns a posterior computed from the single draw.
\<close>
theorem single_sample_posterior_counterexample:
  "compute_posterior catalog ''Annual Removals'' 1 zero_state =
     Inr (Some \<lparr>samples = [265000], mean = 265000, median = 265000, std = 0,
                ci_90 = (265000, 265000), ci_50 = (265000, 265000),
                p_official = \<lparr>est_mean = 185000, est_std = 10000\<rparr>,
                p_independent = \<lparr>est_mean = 265000, est_std = 25000\<rparr>,
                weights = (float_0_3, float_0_7)\<rparr>, zero_state)"
  by (simp add: compute_posterior_def catalog_removals mixture_weights_def draw_samples_def
      n_independent_def n_official_1 random_normal_def random_shuffle_def zero_state_def
      np_percentile_def quantile_linear_def np_mean_def np_std_def np_var_def)

text \<open>
  Claim C9, amended. \<open>compute_posterior\<close> has no lower bound on the sample count of its
  own. With a sample count of 1 it returns a posterior of exactly one sample; a negative
  sample count is refused by the sampler, which raises \<open>ValueError\<close>.
\<close>

theorem small_sample_counts:
  assumes "contested_metrics metric_name = Some metric"
    and "0 \<le> est_std (official metric)" and "0 \<le> est_std (independent metric)"
  shows "(\<exists>p st'. compute_posterior contested_metrics metric_name 1 st = Inr (Some p, st')
            \<and> length (samples p) = 1)
       \<and> (\<forall>n<0. compute_posterior contested_metrics metric_name n st = Inl ValueError)"
proof -
  have "\<exists>p st'. compute_posterior contested_metrics metric_name 1 st = Inr (Some p, st')
            \<and> length (samples p) = 1"
    using compute_posterior_ok[where cm=contested_metrics and name=metric_name and n=1 and st=st, OF assms] by auto
  moreover have "compute_posterior contested_metrics metric_name n st = Inl ValueError" if "n < 0" for n
    unfolding compute_posterior_def Let_def
    by (simp add: assms(1) draw_samples_negative[OF that mixture_weights_nonneg])
  ultimately show ?thesis by blast
qed

theorem small_sample_counts_witness:
  "catalog ''Annual Removals'' \<noteq> None
     \<and> (\<exists>p st'. compute_posterior catalog ''Annual Removals'' 1 zero_state = Inr (Some p, st')
            \<and> length (samples p) = 1)
     \<and> compute_posterior catalog ''Annual Removals'' (- 5) zero_state = Inl ValueError"
proof -
  have "(0::real) \<le> 10000" "(0::real) \<le> 25000" by simp_all
  hence "(\<exists>p st'. compute_posterior catalog ''Annual Removals'' 1 zero_state = Inr (Some p, st')
            \<and> length (samples p) = 1)
       \<and> (\<forall>n<0. compute_posterior catalog ''Annual Removals'' n zero_state = Inl ValueError)"
    using small_sample_counts[where contested_metrics=catalog and metric_name="''Annual Removals''" and st=zero_state, OF catalog_removals] by simp
  thus ?thesis using catalog_removals by simp
qed

section \<open>The branches of \<open>fit_trend\<close>\<close>

lemma remove_nan_length_le: "length (remove_nan ys vs) \<le> length vs"
  by (induction ys vs rule: remove_nan.induct) auto

lemma remove_nan_all_valid:
  "remove_nan (map fst ps) (map (Some \<circ> snd) ps) = ps"
  by (induction ps) auto

lemma remove_nan_refit:
  "map fst (remove_nan (map fst ps) (map Some (map snd ps))) = map fst ps"
  "map snd (remove_nan (map fst ps) (map Some (map snd ps))) = map snd ps"
  using remove_nan_all_valid[of ps] by (simp_all add: comp_def)

lemma fit_trend_mismatch:
  "length years \<noteq> length vals \<Longrightarrow> fit_trend lib years vals mt = Inl IndexError"
  by (subst fit_trend.simps) simp

lemma fit_trend_few:
  "length years = length vals \<Longrightarrow> length (remove_nan years vals) < 3 \<Longrightarrow>
   fit_trend lib years vals mt = Inr None"
  by (subst fit_trend.simps) (simp add: Let_def)

lemma fit_trend_linear:
  assumes "length years = length vals" "\<not> length (remove_nan years vals) < 3"
  shows "fit_trend lib years vals ''linear'' =
     (case linregress lib (map fst (remove_nan years vals)) (map snd (remove_nan years vals)) of
        Inl e \<Rightarrow> Inl e
      | Inr (slope', intercept', r_value, p_value, std_err') \<Rightarrow>
          Inr (Some \<lparr>model_kind = ''linear'', slope = Some slope', intercept = Some intercept',
                     params = [], r_squared = Some (r_value\<^sup>2), std_err = Some std_err',
                     predict = (\<lambda>year. slope' * year + intercept'),
                     residual_std = np_std (residuals_of (\<lambda>year. slope' * year + intercept')
                        (map fst (remove_nan years vals)) (map snd (remove_nan years vals)))\<rparr>))"
  using assms by (subst fit_trend.simps) (auto simp: Let_def split: sum.splits prod.splits)

lemma fit_trend_refit_linear:
  assumes "length years = length vals" "\<not> length (remove_nan years vals) < 3"
  shows "fit_trend lib (map fst (remove_nan years vals))
           (map Some (map snd (remove_nan years vals))) ''linear''
         = fit_trend lib years vals ''linear''"
proof -
  let ?ps = "remove_nan years vals"
  have l: "length (map fst ?ps) = length (map Some (map snd ?ps))" by simp
  have n: "\<not> length (remove_nan (map fst ?ps) (map Some (map snd ?ps))) < 3"
    using assms(2) remove_nan_all_valid[of ?ps] by (simp add: comp_def)
  show ?thesis
    unfolding fit_trend_linear[OF l n] fit_trend_linear[OF assms] remove_nan_refit ..
qed

lemma fit_trend_exponential:
  assumes "length years = length vals" "\<not> length (remove_nan years vals) < 3"
  shows "fit_trend lib years vals ''exponential'' =
     (let ys = map fst (remove_nan years vals); vs = map snd (remove_nan years vals)
      in case curve_fit_exp lib (hd ys) ys vs (hd vs, 0.05, 0) of
           Inr popt \<Rightarrow>
             Inr (Some \<lparr>model_kind = ''exponential'', slope = None, intercept = None,
                        params = (case popt of (a, b, c) \<Rightarrow> [a, b, c]),
                        r_squared = curve_r_squared (residuals_of (exp_func (hd ys) popt) ys vs) vs,
                        std_err = None, predict = exp_func (hd ys) popt,
                        residual_std = np_std (residuals_of (exp_func (hd ys) popt) ys vs)\<rparr>)
         | Inl e \<Rightarrow> if e = RuntimeError \<or> e = ValueError
                    then fit_trend lib years vals ''linear'' else Inl e)"
  using assms fit_trend_refit_linear[OF assms, of lib]
  by (subst fit_trend.simps) (auto simp: Let_def split: sum.splits prod.splits)

lemma fit_trend_logistic:
  assumes "length years = length vals" "\<not> length (remove_nan years vals) < 3"
  shows "fit_trend lib years vals ''logistic'' =
     (let ys = map fst (remove_nan years vals); vs = map snd (remove_nan years vals)
      in case curve_fit_logistic lib ys vs (list_max vs * 1.5, 0.1, np_median ys, list_min vs) of
           Inr popt \<Rightarrow>
             Inr (Some \<lparr>model_kind = ''logistic'', slope = None, intercept = None,
                        params = (case popt of (L, k, x0, b) \<Rightarrow> [L, k, x0, b]),
                        r_squared = curve_r_squared (residuals_of (logistic_func popt) ys vs) vs,
                        std_err = None, predict = logistic_func popt,
                        residual_std = np_std (residuals_of (logistic_func popt) ys vs)\<rparr>)
         | Inl e \<Rightarrow> if e = RuntimeError \<or> e = ValueError
                    then fit_trend lib years vals ''linear'' else Inl e)"
  using assms fit_trend_refit_linear[OF assms, of lib]
  by (subst fit_trend.simps) (auto simp: Let_def split: sum.splits prod.splits)

lemma fit_trend_unknown:
  assumes "length years = length vals"
    and "mt \<noteq> ''linear''" "mt \<noteq> ''exponential''" "mt \<noteq> ''logistic''"
  shows "fit_trend lib years vals mt = Inr None"
  using assms by (subst fit_trend.simps) (simp add: Let_def)

lemma np_var_nonneg: "0 \<le> np_var xs"
  unfolding np_var_def np_mean_def
  by (intro divide_nonneg_nonneg sum_list_nonneg) auto

lemma np_std_nonneg: "0 \<le> np_std xs"
  unfolding np_std_def using np_var_nonneg by simp

lemma fit_trend_linear_model:
  assumes "fit_trend lib years vals ''linear'' = Inr (Some m)"
  shows "model_kind m = ''linear'' \<and> 0 \<le> residual_std m \<and> (\<exists>r. r_squared m = Some r \<and> 0 \<le> r)"
proof (cases "length years = length vals \<and> \<not> length (remove_nan years vals) < 3")
  case True
  thus ?thesis using assms np_std_nonneg
    by (auto simp: fit_trend_linear split: sum.splits prod.splits)
next
  case False
  hence "fit_trend lib years vals ''linear'' = Inl IndexError
       \<or> fit_trend lib years vals ''linear'' = Inr None"
    using fit_trend_mismatch[of years vals lib "''linear''"]
      fit_trend_few[of years vals lib "''linear''"] by blast
  thus ?thesis using assms by auto
qed

lemma fit_trend_linear_not_None:
  assumes "length years = length vals" "\<not> length (remove_nan years vals) < 3"
  shows "fit_trend lib years vals ''linear'' \<noteq> Inr None"
  by (auto simp: fit_trend_linear[OF assms] split: sum.splits prod.splits)

lemma fit_trend_model:
  assumes "fit_trend lib years vals mt = Inr (Some m)"
  shows "0 \<le> residual_std m \<and> model_kind m \<in> {''linear'', ''exponential'', ''logistic''}
       \<and> (mt = ''exponential'' \<longrightarrow> model_kind m \<noteq> ''logistic'')"
proof -
  have eq: "length years = length vals"
    using assms fit_trend_mismatch[of years vals lib mt] by (cases "length years = length vals") auto
  have n3: "\<not> length (remove_nan years vals) < 3"
    using assms fit_trend_few[OF eq, of lib mt] by auto
  consider "mt = ''linear''" | "mt = ''exponential''" | "mt = ''logistic''"
    | "mt \<noteq> ''linear''" "mt \<noteq> ''exponential''" "mt \<noteq> ''logistic''" by blast
  thus ?thesis
  proof cases
    case 1 thus ?thesis using fit_trend_linear_model assms by auto
  next
    case 2
    show ?thesis using assms np_std_nonneg fit_trend_linear_model[of lib years vals m]
      unfolding 2 fit_trend_exponential[OF eq n3] Let_def
      by (auto split: sum.splits if_splits)
  next
    case 3
    show ?thesis using assms np_std_nonneg fit_trend_linear_model[of lib years vals m]
      unfolding 3 fit_trend_logistic[OF eq n3] Let_def
      by (auto split: sum.splits if_splits)
  next
    case 4 thus ?thesis using assms fit_trend_unknown[OF eq 4] by simp
  qed
qed

lemma fit_trend_none_iff:
  assumes "length years = length vals"
    and "mt = ''linear'' \<or> mt = ''exponential'' \<or> mt = ''logistic''"
  shows "fit_trend lib years vals mt = Inr None \<longleftrightarrow> length (remove_nan years vals) < 3"
proof
  assume "length (remove_nan years vals) < 3"
  thus "fit_trend lib years vals mt = Inr None" using fit_trend_few[OF assms(1)] by simp
next
  assume r: "fit_trend lib years vals mt = Inr None"
  show "length (remove_nan years vals) < 3"
  proof (rule ccontr)
    assume n3: "\<not> length (remove_nan years vals) < 3"
    note lin = fit_trend_linear_not_None[OF assms(1) n3, of lib]
    from assms(2) show False
    proof (elim disjE)
      assume "mt = ''linear''" thus False using r lin by simp
    next
      assume "mt = ''exponential''"
      thus False using r lin fit_trend_exponential[OF assms(1) n3, of lib]
        by (auto simp: Let_def split: sum.splits if_splits)
    next
      assume "mt = ''logistic''"
      thus False using r lin fit_trend_logistic[OF assms(1) n3, of lib]
        by (auto simp: Let_def split: sum.splits if_splits)
    qed
  qed
qed

lemma example_linregress_ok:
  "np_mean (map (\<lambda>x. (x - np_mean xs)\<^sup>2) xs) \<noteq> 0 \<Longrightarrow> \<exists>t. example_linregress xs ys = Inr t"
  by (simp add: example_linregress_def Let_def)

lemma example_linregress_scenario:
  "\<exists>t. example_linregress [2018, 2019, 2020, 2021] [12, 12, 19, 21] = Inr t"
  by (rule example_linregress_ok) (simp add: np_mean_def power2_eq_square)

lemma scenario_points:
  "remove_nan [2018, 2019, 2020, 2021] [Some 12, Some 12, Some 19, Some 21]
     = [(2018, 12), (2019, 12), (2020, 19), (2021, 21)]"
  by simp

lemma scenario_linear:
  "\<exists>m. fit_trend example_library [2018, 2019, 2020, 2021] [Some 12, Some 12, Some 19, Some 21] ''linear''
         = Inr (Some m)"
proof -
  obtain t where t: "example_linregress [2018, 2019, 2020, 2021] [12, 12, 19, 21] = Inr t"
    using example_linregress_scenario by blast
  show ?thesis
    by (subst fit_trend_linear) (auto simp: example_library_def t split: prod.splits)
qed

lemma exp_ln2_twice: "exp (ln 2 * 2) = (4 :: real)"
proof -
  have "exp (ln 2 * 2) = exp (2 * ln (2 :: real))" by (simp add: mult.commute)
  also have "\<dots> = (exp (ln (2 :: real)))\<^sup>2" by (rule exp_double)
  also have "\<dots> = 4" by simp
  finally show ?thesis .
qed

lemma doubling_exponential:
  "\<exists>me. fit_trend doubling_library [2018, 2019, 2020] [Some 1, Some 2, Some 4] ''exponential''
           = Inr (Some me)
        \<and> r_squared me = Some 1 \<and> model_kind me = ''exponential''"
  by (subst fit_trend_exponential)
     (simp_all add: doubling_library_def example_library_def curve_fit_exp_def Let_def
        exp_func_def residuals_of_def curve_r_squared_def np_var_def np_mean_def
        exp_ln2_twice power2_eq_square)

lemma doubling_linear:
  "\<exists>ml rl. fit_trend doubling_library [2018, 2019, 2020] [Some 1, Some 2, Some 4] ''linear''
           = Inr (Some ml)
        \<and> r_squared ml = Some rl \<and> rl < 1"
  apply (subst fit_trend_linear)
    apply simp
   apply simp
  apply (simp add: doubling_library_def example_library_def example_linregress_def Let_def
      np_mean_def power2_eq_square)
  apply (rule exI[of _ "27 / 28"])
  apply simp
  done

lemma fit_trend_fallback:
  assumes "length years = length vals" "\<not> length (remove_nan years vals) < 3"
    and "e = RuntimeError \<or> e = ValueError"
  shows "curve_fit_exp lib (hd (map fst (remove_nan years vals))) (map fst (remove_nan years vals))
            (map snd (remove_nan years vals)) (hd (map snd (remove_nan years vals)), 0.05, 0) = Inl e
         \<Longrightarrow> fit_trend lib years vals ''exponential'' = fit_trend lib years vals ''linear''"
    and "curve_fit_logistic lib (map fst (remove_nan years vals)) (map snd (remove_nan years vals))
            (list_max (map snd (remove_nan years vals)) * 1.5, 0.1,
             np_median (map fst (remove_nan years vals)), list_min (map snd (remove_nan years vals))) = Inl e
         \<Longrightarrow> fit_trend lib years vals ''logistic'' = fit_trend lib years vals ''linear''"
  using assms(3)
  by (auto simp: fit_trend_exponential[OF assms(1,2)] fit_trend_logistic[OF assms(1,2)] Let_def)

section \<open>Claims about the trend engine\<close>

text \<open>
  Claim C1 says that \<open>fit_trend\<close>, for each of the three model kinds, removes the pairs
  with a missing value, returns \<open>None\<close> exactly when fewer than three pairs remain, and
  succeeds on exactly three. The threshold is as stated (\<open>fit_trend_none_iff\<close>), but with
  exactly three valid points the logistic kind does not succeed: \<open>curve_fit\<close> refuses to
  fit four parameters to three points with a \<open>TypeError\<close>, which the handler of line 111
  does not catch.
\<close>
theorem logistic_three_points_raises:
  "fit_trend lib [2018, 2019, 2020] [Some 10, Some 20, Some 30] ''logistic'' = Inl TypeError"
  by (subst fit_trend_logistic) (simp_all add: curve_fit_logistic_def Let_def)

text \<open>
  Claim C2 says that with three or more valid points a failed exponential or logistic fit
  falls back to the linear model and never reaches the caller. The fallback is there for
  \<open>RuntimeError\<close> and \<open>ValueError\<close> (\<open>fit_trend_fallback\<close>), but the logistic kind on
  three valid points raises \<open>TypeError\<close> to the caller; here the three points are what is
  left of four after the paired removal.
\<close>
theorem logistic_three_valid_points_no_fallback:
  "fit_trend lib [2017, 2018, 2019, 2020] [Some 12, None, Some 19, Some 21] ''logistic''
     = Inl TypeError"
  by (subst fit_trend_logistic) (simp_all add: curve_fit_logistic_def Let_def)

text \<open>
  Claim C10. For a model kind other than \<open>linear\<close>, \<open>exponential\<close> and \<open>logistic\<close>,
  \<open>fit_trend\<close> falls through every branch and returns \<open>None\<close>, also when three or more
  valid paired points are supplied: the same value as for insufficient data.
\<close>
theorem unknown_model_kind_returns_none:
  assumes "length years = length vals"
    and "mt \<noteq> ''linear''" and "mt \<noteq> ''exponential''" and "mt \<noteq> ''logistic''"
  shows "fit_trend lib years vals mt = Inr None"
  using assms by (rule fit_trend_unknown)

theorem unknown_model_kind_returns_none_witness:
  "length [2018, 2019, 2020, 2021 :: real] = length [Some 12, Some 12, Some 19, Some (21 :: real)]
   \<and> 3 \<le> length (remove_nan [2018, 2019, 2020, 2021] [Some 12, Some 12, Some 19, Some 21])
   \<and> ''quadratic'' \<noteq> ''linear'' \<and> ''quadratic'' \<noteq> ''exponential'' \<and> ''quadratic'' \<noteq> ''logistic''
   \<and> fit_trend example_library [2018, 2019, 2020, 2021] [Some 12, Some 12, Some 19, Some 21]
        ''quadratic'' = Inr None"
proof -
  have h: "length [2018, 2019, 2020, 2021 :: real] = length [Some 12, Some 12, Some 19, Some (21 :: real)]"
    "''quadratic'' \<noteq> ''linear''" "''quadratic'' \<noteq> ''exponential''" "''quadratic'' \<noteq> ''logistic''"
    by simp_all
  show ?thesis using h unknown_model_kind_returns_none[OF h, of example_library] by simp
qed

section \<open>Predictions and model selection\<close>

lemma py_max_Max: "xs \<noteq> [] \<Longrightarrow> py_max xs = Inr (Max (set xs))"
proof -
  assume "xs \<noteq> []"
  then obtain x xs' where x: "xs = x # xs'" by (cases xs) auto
  have "(\<lambda>a s. max s a) = (max :: int \<Rightarrow> int \<Rightarrow> int)" by (intro ext) (simp add: max.commute)
  hence "foldl max x xs' = fold max xs' x" by (simp add: foldl_conv_fold)
  thus ?thesis unfolding x py_max_def using Max.set_eq_fold[of x xs'] by simp
qed

lemma py_max_Inr: "py_max xs = Inr mk \<Longrightarrow> mk = Max (set xs)"
  using py_max_Max[of xs] by (cases "xs = []") (auto simp: py_max_def)

lemma factor_of_ge_1: "1 \<le> factor_of mk yr"
  by (simp add: factor_of_def)

lemma factor_of_within: "yr \<le> mk \<Longrightarrow> factor_of mk yr = 1"
  by (simp add: factor_of_def)

lemma factor_of_mono: "yr \<le> yr' \<Longrightarrow> factor_of mk yr \<le> factor_of mk yr'"
  by (simp add: factor_of_def)

lemma predict_all_entries:
  assumes "predict_all m z known missing = Inr ps"
  shows "map year ps = missing \<and>
         (\<forall>e \<in> set ps. uncertainty_factor e = factor_of (Max (set known)) (year e)
            \<and> predicted e = predict m (real_of_int (year e))
            \<and> lower e = predicted e - z * residual_std m * uncertainty_factor e
            \<and> upper e = predicted e + z * residual_std m * uncertainty_factor e
            \<and> is_imputed e)"
  using assms
proof (induction missing arbitrary: ps)
  case Nil
  thus ?case by simp
next
  case (Cons yr rest)
  from Cons.prems obtain p ps' where p: "predict_year m z known yr = Inr p"
    and ps': "predict_all m z known rest = Inr ps'" and ps: "ps = p # ps'"
    by (auto split: sum.splits)
  from p obtain mk where mk: "py_max known = Inr mk"
    by (auto simp: predict_year_def Let_def split: sum.splits)
  have mk': "mk = Max (set known)" using py_max_Inr[OF mk] .
  have "year p = yr \<and> uncertainty_factor p = factor_of (Max (set known)) yr
      \<and> predicted p = predict m (real_of_int yr)
      \<and> lower p = predicted p - z * residual_std m * uncertainty_factor p
      \<and> upper p = predicted p + z * residual_std m * uncertainty_factor p \<and> is_imputed p"
    using p mk mk' by (auto simp: predict_year_def Let_def)
  thus ?case using Cons.IH[OF ps'] ps by simp
qed

lemma predict_all_ok:
  "known \<noteq> [] \<Longrightarrow> \<exists>ps. predict_all m z known missing = Inr ps"
  by (induction missing) (auto simp: predict_year_def py_max_Max Let_def)

lemma select_model_explicit:
  "mt \<noteq> ''auto'' \<Longrightarrow> select_model lib ys vs mt = fit_trend lib ys vs mt"
  by (simp add: select_model_def)

lemma select_model_auto:
  assumes "fit_trend lib ys vs ''linear'' = Inr (Some ml)"
    and "fit_trend lib ys vs ''exponential'' = Inr (Some me)"
  shows "select_model lib ys vs ''auto'' =
           Inr (Some (if r2_exceeds (r_squared me) (the (r_squared ml)) then me else ml))"
proof -
  obtain r where r: "r_squared ml = Some r" "0 \<le> r"
    using fit_trend_linear_model[OF assms(1)] by blast
  hence "r2_exceeds (r_squared ml) (- 1)" by (simp add: r2_exceeds_def)
  thus ?thesis using r by (simp add: select_model_def assms)
qed

lemma select_model_result:
  assumes "select_model lib ys vs mt = Inr (Some m)"
  shows "0 \<le> residual_std m"
    and "mt = ''auto'' \<Longrightarrow> model_kind m \<noteq> ''logistic''"
proof -
  have fit: "\<exists>k. fit_trend lib ys vs k = Inr (Some m) \<and> (mt = ''auto'' \<longrightarrow> k = ''linear'' \<or> k = ''exponential'')"
    using assms unfolding select_model_def
    by (auto split: if_splits sum.splits option.splits prod.splits)
  then obtain k where k: "fit_trend lib ys vs k = Inr (Some m)"
    "mt = ''auto'' \<longrightarrow> k = ''linear'' \<or> k = ''exponential''" by blast
  show "0 \<le> residual_std m" using fit_trend_model[OF k(1)] by simp
  show "model_kind m \<noteq> ''logistic''" if "mt = ''auto''"
    using k(2) that fit_trend_model[OF k(1)] fit_trend_linear_model[of lib ys vs m] k(1) by auto
qed

lemma fit_trend_ignores_logistic_optimizer:
  assumes "mt = ''linear'' \<or> mt = ''exponential''"
  shows "fit_trend (lib\<lparr>minimize_logistic := f\<rparr>) ys vs mt = fit_trend lib ys vs mt"
proof (cases "length ys = length vs \<and> \<not> length (remove_nan ys vs) < 3")
  case True
  hence c: "length ys = length vs" "\<not> length (remove_nan ys vs) < 3" by auto
  have lin: "fit_trend (lib\<lparr>minimize_logistic := f\<rparr>) ys vs ''linear'' = fit_trend lib ys vs ''linear''"
    by (simp add: fit_trend_linear[OF c])
  show ?thesis using assms lin
    by (auto simp: fit_trend_exponential[OF c] curve_fit_exp_def Let_def split: sum.splits)
next
  case False
  thus ?thesis using fit_trend_mismatch[of ys vs] fit_trend_few[of ys vs] by (cases "length ys = length vs") auto
qed

lemma auto_loop_ignores_logistic_optimizer:
  assumes "set kinds \<subseteq> {''linear'', ''exponential''}"
  shows "auto_loop (lib\<lparr>minimize_logistic := f\<rparr>) ys vs kinds best = auto_loop lib ys vs kinds best"
  using assms
proof (induction kinds arbitrary: best)
  case Nil
  show ?case by simp
next
  case (Cons k kinds)
  hence k: "k = ''linear'' \<or> k = ''exponential''" and rest: "set kinds \<subseteq> {''linear'', ''exponential''}"
    by auto
  show ?case
    by (simp add: fit_trend_ignores_logistic_optimizer[OF k] Cons.IH[OF rest]
          split: sum.splits option.splits)
qed

lemma select_model_ignores_logistic_optimizer:
  "select_model (lib\<lparr>minimize_logistic := f\<rparr>) ys vs ''auto'' = select_model lib ys vs ''auto''"
proof -
  have "auto_loop (lib\<lparr>minimize_logistic := f\<rparr>) ys vs [''linear'', ''exponential''] (None, - 1)
      = auto_loop lib ys vs [''linear'', ''exponential''] (None, - 1)"
    by (rule auto_loop_ignores_logistic_optimizer) simp
  thus ?thesis unfolding select_model_def by (simp only: if_True refl)
qed

lemma impute_result:
  assumes "impute_missing_years lib known vs missing mt conf = Inr (Some res)"
  shows "select_model lib (map real_of_int known) vs mt = Inr (Some (model res))"
    and "predict_all (model res) (norm_ppf lib ((1 + conf) / 2)) known missing = Inr (predictions res)"
    and "model_type res = model_kind (model res)"
  using assms unfolding impute_missing_years_def
  by (auto split: sum.splits option.splits)

lemma fit_trend_Some_nonempty:
  assumes "fit_trend lib (map real_of_int known) vs mt = Inr (Some m)"
  shows "known \<noteq> []"
proof
  assume "known = []"
  hence "length (remove_nan (map real_of_int known) vs) < 3" by simp
  moreover have "length (map real_of_int known) = length vs"
    using assms fit_trend_mismatch[of "map real_of_int known" vs lib mt]
    by (cases "length (map real_of_int known) = length vs") auto
  ultimately show False using assms fit_trend_few[of "map real_of_int known" vs lib mt] by simp
qed

lemma impute_ignores_logistic_optimizer:
  "impute_missing_years (lib\<lparr>minimize_logistic := f\<rparr>) known vs missing ''auto'' conf
     = impute_missing_years lib known vs missing ''auto'' conf"
  unfolding impute_missing_years_def select_model_ignores_logistic_optimizer
  by (auto split: sum.splits option.splits)

lemma impute_ok:
  assumes "select_model lib (map real_of_int known) vs mt = Inr (Some m)" and "known \<noteq> []"
  shows "\<exists>res. impute_missing_years lib known vs missing mt conf = Inr (Some res)
           \<and> model res = m \<and> model_type res = model_kind m"
proof -
  obtain ps where ps: "predict_all m (norm_ppf lib ((1 + conf) / 2)) known missing = Inr ps"
    using predict_all_ok[OF assms(2)] by blast
  show ?thesis unfolding impute_missing_years_def by (simp add: assms(1) ps)
qed

text \<open>
  Claim C6. Every entry of an imputation has \<open>lower = predicted - margin\<close> and
  \<open>upper = predicted + margin\<close> with \<open>margin = zScore * residualStddev * uncertaintyFactor\<close>,
  hence \<open>lower \<le> predicted \<le> upper\<close>; and
  \<open>uncertaintyFactor = 1 + 0.15 * max(0, year - max(knownYears))\<close> is at least 1, is 1 for
  years not beyond the last known year, and does not decrease as the year grows. The
  confidence level is a level (not negative), and the normal quantile of a probability of at
  least one half is not negative.
\<close>
theorem imputation_bounds_and_uncertainty_factor:
  assumes "impute_missing_years lib known_years known_vals missing_years mt conf = Inr (Some res)"
    and "0 \<le> conf" and "\<forall>p\<ge>1/2. 0 \<le> norm_ppf lib p"
  shows "map year (predictions res) = missing_years
     \<and> (\<forall>e \<in> set (predictions res).
          lower e = predicted e
                      - norm_ppf lib ((1 + conf) / 2) * residual_std (model res) * uncertainty_factor e
        \<and> upper e = predicted e
                      + norm_ppf lib ((1 + conf) / 2) * residual_std (model res) * uncertainty_factor e
        \<and> lower e \<le> predicted e \<and> predicted e \<le> upper e
        \<and> uncertainty_factor e
            = 1 + 0.15 * real_of_int (max 0 (year e - Max (set known_years)))
        \<and> 1 \<le> uncertainty_factor e
        \<and> (year e \<le> Max (set known_years) \<longrightarrow> uncertainty_factor e = 1))
     \<and> (\<forall>e \<in> set (predictions res). \<forall>e' \<in> set (predictions res).
          year e \<le> year e' \<longrightarrow> uncertainty_factor e \<le> uncertainty_factor e')"
proof -
  define z where "z = norm_ppf lib ((1 + conf) / 2)"
  have z0: "0 \<le> z" unfolding z_def using assms(2,3) by simp
  have s0: "0 \<le> residual_std (model res)"
    using select_model_result(1)[OF impute_result(1)[OF assms(1)]] .
  note E = predict_all_entries[OF impute_result(2)[OF assms(1)], folded z_def]
  have entry: "lower e = predicted e - z * residual_std (model res) * uncertainty_factor e
        \<and> upper e = predicted e + z * residual_std (model res) * uncertainty_factor e
        \<and> lower e \<le> predicted e \<and> predicted e \<le> upper e
        \<and> uncertainty_factor e = 1 + 0.15 * real_of_int (max 0 (year e - Max (set known_years)))
        \<and> 1 \<le> uncertainty_factor e
        \<and> (year e \<le> Max (set known_years) \<longrightarrow> uncertainty_factor e = 1)"
    if e: "e \<in> set (predictions res)" for e
  proof -
    have f: "uncertainty_factor e = factor_of (Max (set known_years)) (year e)"
      and lo: "lower e = predicted e - z * residual_std (model res) * uncertainty_factor e"
      and up: "upper e = predicted e + z * residual_std (model res) * uncertainty_factor e"
      using E e by auto
    have f1: "1 \<le> uncertainty_factor e" unfolding f by (rule factor_of_ge_1)
    have "0 \<le> z * residual_std (model res) * uncertainty_factor e"
      using z0 s0 f1 by (intro mult_nonneg_nonneg) auto
    thus ?thesis using lo up f1 f factor_of_within[of "year e" "Max (set known_years)"]
      by (simp add: factor_of_def)
  qed
  have mono: "uncertainty_factor e \<le> uncertainty_factor e'"
    if "e \<in> set (predictions res)" "e' \<in> set (predictions res)" "year e \<le> year e'" for e e'
    using E that factor_of_mono[OF that(3), of "Max (set known_years)"] by auto
  show ?thesis using E entry mono unfolding z_def by blast
qed

lemma scenario_imputation:
  "\<exists>res. impute_missing_years example_library [2018, 2019, 2020, 2021]
            [Some 12, Some 12, Some 19, Some 21] [2022, 2023] ''linear'' (95 / 100) = Inr (Some res)"
proof -
  obtain m where m: "fit_trend example_library [2018, 2019, 2020, 2021]
      [Some 12, Some 12, Some 19, Some 21] ''linear'' = Inr (Some m)"
    using scenario_linear by blast
  have "select_model example_library (map real_of_int [2018, 2019, 2020, 2021])
      [Some 12, Some 12, Some 19, Some 21] ''linear'' = Inr (Some m)"
    by (simp add: select_model_def m)
  from impute_ok[OF this, of "[2022, 2023]" "95 / 100"] show ?thesis by auto
qed

theorem imputation_bounds_and_uncertainty_factor_witness:
  "\<exists>res. impute_missing_years example_library [2018, 2019, 2020, 2021]
            [Some 12, Some 12, Some 19, Some 21] [2022, 2023] ''linear'' (95 / 100) = Inr (Some res)
      \<and> (0 :: real) \<le> 95 / 100 \<and> (\<forall>p\<ge>1/2. 0 \<le> norm_ppf example_library p)
      \<and> map year (predictions res) = [2022, 2023]
      \<and> (\<forall>e \<in> set (predictions res). lower e \<le> predicted e \<and> predicted e \<le> upper e
            \<and> 1 \<le> uncertainty_factor e)"
proof -
  obtain res where r: "impute_missing_years example_library [2018, 2019, 2020, 2021]
      [Some 12, Some 12, Some 19, Some 21] [2022, 2023] ''linear'' (95 / 100) = Inr (Some res)"
    using scenario_imputation by blast
  have c: "(0 :: real) \<le> 95 / 100" by simp
  have q: "\<forall>p\<ge>1/2. 0 \<le> norm_ppf example_library p" by (simp add: example_library_def)
  note T = imputation_bounds_and_uncertainty_factor[OF r c q]
  have a: "map year (predictions res) = [2022, 2023]" using T by (rule conjunct1)
  have b: "lower e \<le> predicted e \<and> predicted e \<le> upper e \<and> 1 \<le> uncertainty_factor e"
    if "e \<in> set (predictions res)" for e
    using bspec[OF conjunct1[OF conjunct2[OF T]] that] by (elim conjE) (intro conjI; assumption)
  have b': "\<forall>e \<in> set (predictions res). lower e \<le> predicted e \<and> predicted e \<le> upper e
            \<and> 1 \<le> uncertainty_factor e"
    using b by (intro ballI)
  show ?thesis by (intro exI[of _ res] conjI r c q a b')
qed

lemma impute_explicit:
  assumes "mt \<noteq> ''auto''"
  shows "case fit_trend lib (map real_of_int known) vs mt of
           Inl e \<Rightarrow> impute_missing_years lib known vs missing mt conf = Inl e
         | Inr None \<Rightarrow> impute_missing_years lib known vs missing mt conf = Inr None
         | Inr (Some m) \<Rightarrow>
             (\<exists>res. impute_missing_years lib known vs missing mt conf = Inr (Some res)
                \<and> model res = m \<and> model_type res = model_kind m)"
proof (cases "fit_trend lib (map real_of_int known) vs mt")
  case (Inl e)
  thus ?thesis using assms by (simp add: impute_missing_years_def select_model_def)
next
  case (Inr r)
  show ?thesis
  proof (cases r)
    case None
    thus ?thesis using Inr assms by (simp add: impute_missing_years_def select_model_def)
  next
    case (Some m)
    have f: "fit_trend lib (map real_of_int known) vs mt = Inr (Some m)" using Inr Some by simp
    have sel: "select_model lib (map real_of_int known) vs mt = Inr (Some m)"
      using f assms by (simp add: select_model_def)
    show ?thesis using impute_ok[OF sel fit_trend_Some_nonempty[OF f], of missing conf] f by simp
  qed
qed

text \<open>
  Claim C7. In \<open>auto\<close> mode \<open>impute_missing_years\<close> fits the linear and the exponential
  model and uses the one with the higher \<open>r_squared\<close>: the exponential model when its
  \<open>r_squared\<close> is a number above the linear one, the linear model when it is not above or
  not finite. The logistic model is neither selected nor fitted (the result does not depend
  on the logistic optimizer). With an explicit kind, \<open>impute_missing_years\<close> uses the
  outcome of \<open>fit_trend\<close> for that kind and nothing else: its model, its \<open>None\<close> or its
  exception.
\<close>

theorem auto_mode_compares_linear_and_exponential:
  assumes "fit_trend lib (map real_of_int known_years) known_vals ''linear'' = Inr (Some ml)"
    and "fit_trend lib (map real_of_int known_years) known_vals ''exponential'' = Inr (Some me)"
  shows "(\<exists>rl res. r_squared ml = Some rl
            \<and> impute_missing_years lib known_years known_vals missing_years ''auto'' conf
                 = Inr (Some res)
            \<and> (\<forall>re. r_squared me = Some re \<and> rl < re \<longrightarrow> model res = me)
            \<and> (\<forall>re. r_squared me = Some re \<and> re \<le> rl \<longrightarrow> model res = ml)
            \<and> (r_squared me = None \<longrightarrow> model res = ml)
            \<and> model_type res = model_kind (model res)
            \<and> model_type res \<noteq> ''logistic'')
       \<and> (\<forall>f. impute_missing_years (lib\<lparr>minimize_logistic := f\<rparr>) known_years known_vals
                 missing_years ''auto'' conf
               = impute_missing_years lib known_years known_vals missing_years ''auto'' conf)
       \<and> (\<forall>mt. mt \<noteq> ''auto'' \<longrightarrow>
             (case fit_trend lib (map real_of_int known_years) known_vals mt of
                Inl e \<Rightarrow>
                  impute_missing_years lib known_years known_vals missing_years mt conf = Inl e
              | Inr None \<Rightarrow>
                  impute_missing_years lib known_years known_vals missing_years mt conf = Inr None
              | Inr (Some m) \<Rightarrow>
                  (\<exists>res. impute_missing_years lib known_years known_vals missing_years mt conf
                          = Inr (Some res)
                     \<and> model res = m \<and> model_type res = model_kind m)))"
proof -
  define chosen where "chosen = (if r2_exceeds (r_squared me) (the (r_squared ml)) then me else ml)"
  obtain rl where rl: "r_squared ml = Some rl" "0 \<le> rl"
    using fit_trend_linear_model[OF assms(1)] by blast
  have sel: "select_model lib (map real_of_int known_years) known_vals ''auto'' = Inr (Some chosen)"
    unfolding chosen_def by (rule select_model_auto[OF assms])
  have ne: "known_years \<noteq> []" by (rule fit_trend_Some_nonempty[OF assms(1)])
  have kind: "model_kind chosen \<noteq> ''logistic''"
    using select_model_result(2)[OF sel] by simp
  obtain res where res: "impute_missing_years lib known_years known_vals missing_years ''auto'' conf
      = Inr (Some res)" "model res = chosen" "model_type res = model_kind chosen"
    using impute_ok[OF sel ne, of missing_years conf] by blast
  have hi: "model res = me" if "r_squared me = Some re" "rl < re" for re
    using that rl res(2) by (simp add: chosen_def r2_exceeds_def)
  have lo: "model res = ml" if "r_squared me = Some re" "re \<le> rl" for re
    using that rl res(2) by (simp add: chosen_def r2_exceeds_def)
  have nf: "model res = ml" if "r_squared me = None"
    using that res(2) by (simp add: chosen_def r2_exceeds_def)
  have auto_part: "\<exists>rl res. r_squared ml = Some rl
            \<and> impute_missing_years lib known_years known_vals missing_years ''auto'' conf
                 = Inr (Some res)
            \<and> (\<forall>re. r_squared me = Some re \<and> rl < re \<longrightarrow> model res = me)
            \<and> (\<forall>re. r_squared me = Some re \<and> re \<le> rl \<longrightarrow> model res = ml)
            \<and> (r_squared me = None \<longrightarrow> model res = ml)
            \<and> model_type res = model_kind (model res)
            \<and> model_type res \<noteq> ''logistic''"
    using rl(1) res hi lo nf kind by (intro exI[of _ rl] exI[of _ res]) auto
  show ?thesis
    using auto_part impute_ignores_logistic_optimizer impute_explicit by blast
qed

theorem auto_mode_compares_linear_and_exponential_witness:
  "\<exists>ml me res.
       fit_trend doubling_library (map real_of_int [2018, 2019, 2020]) [Some 1, Some 2, Some 4]
         ''linear'' = Inr (Some ml)
     \<and> fit_trend doubling_library (map real_of_int [2018, 2019, 2020]) [Some 1, Some 2, Some 4]
         ''exponential'' = Inr (Some me)
     \<and> impute_missing_years doubling_library [2018, 2019, 2020] [Some 1, Some 2, Some 4] [2021]
         ''auto'' (95 / 100) = Inr (Some res)
     \<and> model res = me \<and> model_type res = ''exponential''"
proof -
  obtain ml rl where ml: "fit_trend doubling_library (map real_of_int [2018, 2019, 2020])
      [Some 1, Some 2, Some 4] ''linear'' = Inr (Some ml)" and rl: "r_squared ml = Some rl" "rl < 1"
    using doubling_linear by auto
  obtain me where me: "fit_trend doubling_library (map real_of_int [2018, 2019, 2020])
      [Some 1, Some 2, Some 4] ''exponential'' = Inr (Some me)"
    and re: "r_squared me = Some 1" and k: "model_kind me = ''exponential''"
    using doubling_exponential by auto
  from conjunct1[OF auto_mode_compares_linear_and_exponential[OF ml me, of "[2021]" "95 / 100"]]
  obtain rl' res where r: "r_squared ml = Some rl'"
    "impute_missing_years doubling_library [2018, 2019, 2020] [Some 1, Some 2, Some 4] [2021]
       ''auto'' (95 / 100) = Inr (Some res)"
    "\<forall>re. r_squared me = Some re \<and> rl' < re \<longrightarrow> model res = me"
    "model_type res = model_kind (model res)"
    by blast
  have "rl' < 1" using r(1) rl by simp
  hence m: "model res = me" using r(3) re by blast
  show ?thesis using ml me r(2) m r(4) k by (intro exI[of _ ml] exI[of _ me] exI[of _ res]) simp
qed

end
